theory Spec2Isabelle
  imports Main "HOL-Library.Sublist" "HOL-Library.Signed_Division"
begin

section \<open>Targets and errors\<close>

text \<open>
  A Go \<^verbatim>\<open>string\<close> and a \<^verbatim>\<open>[]byte\<close> are both byte sequences (a nil and an empty
  byte slice read alike). \<^verbatim>\<open>http.Header\<close> is \<^verbatim>\<open>map[string][]string\<close>; a nil map
  is \<open>None\<close>, so that the allocation guards of the decoders stay visible.
\<close>

type_synonym bytes = string
type_synonym header = "string \<rightharpoonup> string list"

record Target =
  Method :: string
  URL :: string
  Body :: bytes
  Header :: "header option"
  Name :: string

text \<open>The zero value of \<^verbatim>\<open>Target\<close> (\<^verbatim>\<open>var tgt Target\<close>).\<close>

definition zeroTarget :: Target where
  "zeroTarget = \<lparr>Method = [], URL = [], Body = [], Header = None, Name = []\<rparr>"

text \<open>
  The sentinel errors of the package, the errors built with \<^verbatim>\<open>fmt.Errorf\<close> by the
  HTTP-text decoder (each carries the text after its prefix), \<^verbatim>\<open>io.EOF\<close>, and any
  other error value of a reader, a parser or a foreign targeter.
\<close>

datatype error =
    EOF
  | ErrNoTargets
  | ErrNilTarget
  | ErrNoMethod
  | ErrNoURL
  | BadTarget string
  | BadMethod string
  | BadURL string
  | BadHeader string
  | BadBody string
  | OtherError string

text \<open>Reading a nil map yields the zero value; \<^verbatim>\<open>len\<close> of a nil map is 0.\<close>

definition hget :: "header option \<Rightarrow> string \<Rightarrow> string list" where
  "hget h k = (case h of None \<Rightarrow> [] | Some m \<Rightarrow> (case m k of None \<Rightarrow> [] | Some vs \<Rightarrow> vs))"

definition hlen :: "header option \<Rightarrow> nat" where
  "hlen h = (case h of None \<Rightarrow> 0 | Some m \<Rightarrow> card (dom m))"

definition hkeys :: "header option \<Rightarrow> string set" where
  "hkeys h = (case h of None \<Rightarrow> {} | Some m \<Rightarrow> dom m)"

section \<open>The string functions of the Go library that the decoders call\<close>

text \<open>
  \<^verbatim>\<open>strings.TrimSpace\<close> removes the leading and the trailing white space as
  \<^verbatim>\<open>unicode.IsSpace\<close> defines it. On a byte string that is: the six ASCII spaces, and the
  UTF-8 encodings of U+0085, U+00A0, U+1680, U+2000 to U+200A, U+2028, U+2029, U+202F,
  U+205F and U+3000.
\<close>

definition space_runes :: "string list" where
  "space_runes =
    [[CHR 0x09], [CHR 0x0A], [CHR 0x0B], [CHR 0x0C], [CHR 0x0D], [CHR 0x20],
     [CHR 0xC2, CHR 0x85], [CHR 0xC2, CHR 0xA0],
     [CHR 0xE1, CHR 0x9A, CHR 0x80],
     [CHR 0xE2, CHR 0x80, CHR 0x80], [CHR 0xE2, CHR 0x80, CHR 0x81],
     [CHR 0xE2, CHR 0x80, CHR 0x82], [CHR 0xE2, CHR 0x80, CHR 0x83],
     [CHR 0xE2, CHR 0x80, CHR 0x84], [CHR 0xE2, CHR 0x80, CHR 0x85],
     [CHR 0xE2, CHR 0x80, CHR 0x86], [CHR 0xE2, CHR 0x80, CHR 0x87],
     [CHR 0xE2, CHR 0x80, CHR 0x88], [CHR 0xE2, CHR 0x80, CHR 0x89],
     [CHR 0xE2, CHR 0x80, CHR 0x8A],
     [CHR 0xE2, CHR 0x80, CHR 0xA8], [CHR 0xE2, CHR 0x80, CHR 0xA9],
     [CHR 0xE2, CHR 0x80, CHR 0xAF], [CHR 0xE2, CHR 0x81, CHR 0x9F],
     [CHR 0xE3, CHR 0x80, CHR 0x80]]"

text \<open>The number of bytes of the space rune a string starts with, 0 when it starts with none.\<close>

definition leading_space :: "string \<Rightarrow> nat" where
  "leading_space s = (case find (\<lambda>r. prefix r s) space_runes of None \<Rightarrow> 0 | Some r \<Rightarrow> length r)"

definition trailing_space :: "string \<Rightarrow> nat" where
  "trailing_space s = (case find (\<lambda>r. suffix r s) space_runes of None \<Rightarrow> 0 | Some r \<Rightarrow> length r)"

lemma leading_space_le: "leading_space s \<le> length s"
proof (cases "find (\<lambda>r. prefix r s) space_runes")
  case None
  then show ?thesis by (simp add: leading_space_def)
next
  case (Some r)
  then have "prefix r s" by (auto simp: find_Some_iff)
  then have "length r \<le> length s" by (rule prefix_length_le)
  with Some show ?thesis by (simp add: leading_space_def)
qed

lemma trailing_space_le: "trailing_space s \<le> length s"
proof (cases "find (\<lambda>r. suffix r s) space_runes")
  case None
  then show ?thesis by (simp add: trailing_space_def)
next
  case (Some r)
  then have "suffix r s" by (auto simp: find_Some_iff)
  then have "length r \<le> length s" by (rule suffix_length_le)
  with Some show ?thesis by (simp add: trailing_space_def)
qed

function trimLeft :: "string \<Rightarrow> string" where
  "trimLeft s = (if leading_space s = 0 then s else trimLeft (drop (leading_space s) s))"
  by pat_completeness auto
termination
proof (relation "measure length")
  show "wf (measure length)" by simp
next
  fix s :: string
  assume "leading_space s \<noteq> 0"
  moreover have "leading_space s \<le> length s" by (rule leading_space_le)
  ultimately show "(drop (leading_space s) s, s) \<in> measure length" by simp
qed

function trimRight :: "string \<Rightarrow> string" where
  "trimRight s =
     (if trailing_space s = 0 then s else trimRight (take (length s - trailing_space s) s))"
  by pat_completeness auto
termination
proof (relation "measure length")
  show "wf (measure length)" by simp
next
  fix s :: string
  assume "trailing_space s \<noteq> 0"
  moreover have "trailing_space s \<le> length s" by (rule trailing_space_le)
  ultimately show "(take (length s - trailing_space s) s, s) \<in> measure length" by simp
qed

declare trimLeft.simps [simp del]
declare trimRight.simps [simp del]

definition TrimSpace :: "string \<Rightarrow> string" where
  "TrimSpace s = trimRight (trimLeft s)"

text \<open>
  \<^verbatim>\<open>strings.SplitN(s, sep, 2)\<close> for a separator of one byte: the whole string when it
  does not hold the separator, else the text before the first separator and the text after it.
\<close>

definition SplitN2 :: "string \<Rightarrow> char \<Rightarrow> string list" where
  "SplitN2 s sep =
     (if sep \<in> set s then [takeWhile (\<lambda>c. c \<noteq> sep) s, tl (dropWhile (\<lambda>c. c \<noteq> sep) s)]
      else [s])"

text \<open>
  \<^verbatim>\<open>httpMethodChecker\<close> is the regular expression \<^verbatim>\<open>^[A-Z]+\s\<close>; in Go's syntax
  \<^verbatim>\<open>\s\<close> is one of tab, line feed, form feed, carriage return and space.
\<close>

definition upper_ascii :: "char \<Rightarrow> bool" where
  "upper_ascii c = (65 \<le> (of_char c :: nat) \<and> (of_char c :: nat) \<le> 90)"

definition re_space :: "char \<Rightarrow> bool" where
  "re_space c = (c \<in> {CHR 0x09, CHR 0x0A, CHR 0x0C, CHR 0x0D, CHR 0x20})"

definition startsWithHTTPMethod :: "string \<Rightarrow> bool" where
  "startsWithHTTPMethod t =
     (takeWhile upper_ascii t \<noteq> [] \<and>
      (case dropWhile upper_ascii t of [] \<Rightarrow> False | c # _ \<Rightarrow> re_space c))"

section \<open>The peeking scanner\<close>

text \<open>
  The underlying \<^verbatim>\<open>bufio.Scanner\<close>: it delivers the lines of \<open>pending\<close> one by one and
  then stops, cleanly or with a read error (\<open>broken\<close>). \<^verbatim>\<open>Scan\<close> that finds no line
  leaves an empty token; \<^verbatim>\<open>Err\<close> reports the read error once the scanner has stopped.
\<close>

record line_source =
  pending :: "string list"
  token :: string
  broken :: bool
  stopped :: bool

definition src_Scan :: "line_source \<Rightarrow> bool \<times> line_source" where
  "src_Scan s =
     (case pending s of
        [] \<Rightarrow> (False, s\<lparr>token := [], stopped := True\<rparr>)
      | l # ls \<Rightarrow> (True, s\<lparr>pending := ls, token := l\<rparr>))"

definition src_Text :: "line_source \<Rightarrow> string" where
  "src_Text s = token s"

definition src_Err :: "line_source \<Rightarrow> error option" where
  "src_Err s = (if broken s \<and> stopped s then Some (OtherError ''read'') else None)"

text \<open>A source over the given lines, as \<^verbatim>\<open>bufio.NewScanner\<close> returns it.\<close>

definition NewScanner :: "string list \<Rightarrow> bool \<Rightarrow> line_source" where
  "NewScanner ls b = \<lparr>pending = ls, token = [], broken = b, stopped = False\<rparr>"

record peekingScanner =
  src :: line_source
  peeked :: string

definition Err :: "peekingScanner \<Rightarrow> error option" where
  "Err s = src_Err (src s)"

definition Peek :: "peekingScanner \<Rightarrow> string \<times> peekingScanner" where
  "Peek s =
     (case src_Scan (src s) of
        (False, s') \<Rightarrow> ([], s\<lparr>src := s'\<rparr>)
      | (True, s') \<Rightarrow> (src_Text s', s\<lparr>src := s', peeked := src_Text s'\<rparr>))"

definition Scan :: "peekingScanner \<Rightarrow> bool \<times> peekingScanner" where
  "Scan s =
     (if peeked s = [] then (case src_Scan (src s) of (b, s') \<Rightarrow> (b, s\<lparr>src := s'\<rparr>))
      else (True, s))"

definition Text :: "peekingScanner \<Rightarrow> string \<times> peekingScanner" where
  "Text s =
     (if peeked s = [] then (src_Text (src s), s)
      else (peeked s, s\<lparr>peeked := []\<rparr>))"

text \<open>\<^verbatim>\<open>Peek\<close>, then \<^verbatim>\<open>Scan\<close>, then \<^verbatim>\<open>Text\<close>: the three results.\<close>

definition peek_scan_text :: "peekingScanner \<Rightarrow> string \<times> bool \<times> string \<times> peekingScanner" where
  "peek_scan_text s =
     (case Peek s of (p, s1) \<Rightarrow>
        (case Scan s1 of (b, s2) \<Rightarrow>
           (case Text s2 of (t, s3) \<Rightarrow> (p, b, t, s3))))"

section \<open>The HTTP-text decoder\<close>

text \<open>
  The two library calls of the decoder that reach outside the program are parameters:
  \<open>ParseRequestURI e u\<close> holds when \<^verbatim>\<open>url.ParseRequestURI(u)\<close> returns no error, and
  \<open>ReadFile e p\<close> is the content and the error message, if any, that
  \<^verbatim>\<open>ioutil.ReadFile(p)\<close> returns.
\<close>

record env =
  ParseRequestURI :: "string \<Rightarrow> bool"
  ReadFile :: "string \<Rightarrow> bytes \<times> string option"

record httpTargeter =
  body :: bytes
  hdr :: "header option"
  sc :: peekingScanner

definition NewHTTPTargeter :: "line_source \<Rightarrow> bytes \<Rightarrow> header option \<Rightarrow> httpTargeter" where
  "NewHTTPTargeter source b h = \<lparr>body = b, hdr = h, sc = \<lparr>src = source, peeked = []\<rparr>\<rparr>"

text \<open>How many lines the peeking scanner has yet to hand out; the loops below end on it.\<close>

definition lines_left :: "peekingScanner \<Rightarrow> nat" where
  "lines_left s = length (pending (src s)) + (if peeked s = [] then 0 else 1)"

lemma Scan_Text_lines_left:
  "fst (Scan s) \<Longrightarrow> lines_left (snd (Text (snd (Scan s)))) < lines_left s"
  by (auto simp: Scan_def Text_def src_Scan_def lines_left_def split: list.splits)

text \<open>
  The first loop of \<^verbatim>\<open>Next\<close> (lines 289 to 298): the next line that, trimmed, is neither
  empty nor starts with \<^verbatim>\<open>#\<close>; \<open>None\<close> when the scanner has no line left.
\<close>

function next_line :: "peekingScanner \<Rightarrow> string option \<times> peekingScanner" where
  "next_line s =
     (let r = Scan s in
      if \<not> fst r then (None, snd r)
      else
        let q = Text (snd r); line = TrimSpace (fst q) in
        if line \<noteq> [] \<and> hd line \<noteq> CHR ''#'' then (Some line, snd q)
        else next_line (snd q))"
  by pat_completeness auto
termination
proof (relation "measure lines_left")
  show "wf (measure lines_left)" by simp
next
  fix s r q line
  assume "r = Scan s" and "\<not> \<not> fst r" and "q = Text (snd r)"
  then show "(snd q, s) \<in> measure lines_left"
    using Scan_Text_lines_left [of s] by simp
qed

declare next_line.simps [simp del]

text \<open>
  The header and body section (the loop of lines 322 to 344) over the body and the header
  mapping of the target. The error is that of a \<^verbatim>\<open>return\<close> inside the loop; \<open>None\<close>
  is the loop left by \<^verbatim>\<open>break\<close> or by \<^verbatim>\<open>Scan\<close> returning false.
\<close>

function header_lines ::
  "env \<Rightarrow> bytes \<Rightarrow> header \<Rightarrow> peekingScanner \<Rightarrow> error option \<times> bytes \<times> header \<times> peekingScanner"
where
  "header_lines e b m s =
     (let r = Scan s in
      if \<not> fst r then (None, b, m, snd r)
      else
        let q = Text (snd r); line = TrimSpace (fst q); s2 = snd q in
        if line = [] then (None, b, m, s2)
        else if hd line = CHR ''@'' then
          (let f = ReadFile e (tl line) in
           case snd f of
             Some msg \<Rightarrow> (Some (BadBody msg), fst f, m, s2)
           | None \<Rightarrow> (None, fst f, m, s2))
        else
          let tokens = SplitN2 line (CHR '':'') in
          if length tokens < 2 then (Some (BadHeader line), b, m, s2)
          else
            let k = TrimSpace (tokens ! 0); v = TrimSpace (tokens ! 1) in
            if k = [] \<or> v = [] then (Some (BadHeader line), b, m, s2)
            else header_lines e b (m(k \<mapsto> (case m k of None \<Rightarrow> [] | Some vs \<Rightarrow> vs) @ [v])) s2)"
  by pat_completeness auto
termination
proof (relation "measure (\<lambda>(e, b, m, s). lines_left s)")
  show "wf (measure (\<lambda>(e, b, m, s). lines_left s))" by simp
next
  fix e :: env and b :: bytes and m :: header and s r q line s2 tokens k v
  assume "r = Scan s" and "\<not> \<not> fst r" and "q = Text (snd r)" and "s2 = snd q"
  then show "((e, b, m(k \<mapsto> (case m k of None \<Rightarrow> [] | Some vs \<Rightarrow> vs) @ [v]), s2), e, b, m, s)
      \<in> measure (\<lambda>(e, b, m, s). lines_left s)"
    using Scan_Text_lines_left [of s] by simp
qed

declare header_lines.simps [simp del]

text \<open>
  \<^verbatim>\<open>httpTargeter.Next\<close>: the error returned, the caller's target as the call leaves it, and
  the decoder after the call.
\<close>

definition httpTargeter_Next ::
  "env \<Rightarrow> httpTargeter \<Rightarrow> Target option \<Rightarrow> error option \<times> Target option \<times> httpTargeter"
where
  "httpTargeter_Next e h tgt =
     (case tgt of
        None \<Rightarrow> (Some ErrNilTarget, None, h)
      | Some t \<Rightarrow>
         (case next_line (sc h) of
            (None, s1) \<Rightarrow> (Some ErrNoTargets, Some t, h\<lparr>sc := s1\<rparr>)
          | (Some line, s1) \<Rightarrow>
              let t1 = t\<lparr>Body := body h,
                         Header := Some (case hdr h of None \<Rightarrow> Map.empty | Some d \<Rightarrow> d)\<rparr>;
                  tokens = SplitN2 line (CHR '' '')
              in
              if length tokens < 2 then (Some (BadTarget line), Some t1, h\<lparr>sc := s1\<rparr>)
              else if \<not> startsWithHTTPMethod line then
                (Some (BadMethod (tokens ! 0)), Some t1, h\<lparr>sc := s1\<rparr>)
              else
                let t2 = t1\<lparr>Method := tokens ! 0\<rparr> in
                if \<not> ParseRequestURI e (tokens ! 1) then
                  (Some (BadURL (tokens ! 1)), Some t2, h\<lparr>sc := s1\<rparr>)
                else
                  let t3 = t2\<lparr>URL := tokens ! 1\<rparr>;
                      p = Peek s1;
                      line2 = TrimSpace (fst p);
                      s2 = snd p
                  in
                  if line2 = [] \<or> startsWithHTTPMethod line2 then (None, Some t3, h\<lparr>sc := s2\<rparr>)
                  else
                    (case header_lines e (Body t3) (case hdr h of None \<Rightarrow> Map.empty | Some d \<Rightarrow> d) s2 of
                       (Some err, b, m, s3) \<Rightarrow>
                         (Some err, Some (t3\<lparr>Body := b, Header := Some m\<rparr>), h\<lparr>sc := s3\<rparr>)
                     | (None, b, m, s3) \<Rightarrow>
                         if Err s3 \<noteq> None then
                           (Some ErrNoTargets, Some (t3\<lparr>Body := b, Header := Some m\<rparr>), h\<lparr>sc := s3\<rparr>)
                         else (None, Some (t3\<lparr>Body := b, Header := Some m\<rparr>), h\<lparr>sc := s3\<rparr>))))"

section \<open>The JSON decoder\<close>

definition LF :: char where
  "LF = CHR 0x0A"

text \<open>
  The \<^verbatim>\<open>bufio.Reader\<close> of the decoder: the bytes not yet read, and the error the
  underlying reader returns once they are used up (\<open>EOF\<close> for a stream that ends cleanly).
  \<^verbatim>\<open>ReadBytes\<close> returns the bytes up to and including the delimiter; when the delimiter
  does not occur it returns what is left together with that error.
\<close>

record reader =
  data :: bytes
  fail :: error

definition ReadBytes :: "reader \<Rightarrow> char \<Rightarrow> bytes \<times> error option \<times> reader" where
  "ReadBytes r delim =
     (if delim \<in> set (data r) then
        (takeWhile (\<lambda>c. c \<noteq> delim) (data r) @ [delim], None,
         r\<lparr>data := tl (dropWhile (\<lambda>c. c \<noteq> delim) (data r))\<rparr>)
      else (data r, Some (fail r), r\<lparr>data := []\<rparr>))"

lemma ReadBytes_shorter:
  assumes "fst (snd (ReadBytes r delim)) = None"
  shows "length (data (snd (snd (ReadBytes r delim)))) < length (data r)"
proof -
  from assms have d: "delim \<in> set (data r)"
    by (auto simp: ReadBytes_def split: if_splits)
  then have "dropWhile (\<lambda>c. c \<noteq> delim) (data r) \<noteq> []"
    by (simp add: dropWhile_eq_Nil_conv)
  then have "length (tl (dropWhile (\<lambda>c. c \<noteq> delim) (data r)))
      < length (dropWhile (\<lambda>c. c \<noteq> delim) (data r))"
    by simp
  also have "\<dots> \<le> length (data r)" by (rule length_dropWhile_le)
  finally show ?thesis using d by (simp add: ReadBytes_def)
qed

text \<open>
  The read loop of \<^verbatim>\<open>jsonTargeter.Next\<close> (lines 138 to 143): the first chunk that is not
  empty once trimmed, or the error of the read that failed.
\<close>

function read_line :: "reader \<Rightarrow> (error + bytes) \<times> reader" where
  "read_line r =
     (let c = ReadBytes r LF in
      if fst (snd c) \<noteq> None then (Inl (the (fst (snd c))), snd (snd c))
      else
        let d = TrimSpace (fst c) in
        if length d = 0 then read_line (snd (snd c)) else (Inr d, snd (snd c)))"
  by pat_completeness auto
termination
proof (relation "measure (\<lambda>r. length (data r))")
  show "wf (measure (\<lambda>r. length (data r)))" by simp
next
  fix r c d
  assume "c = ReadBytes r LF" and "\<not> fst (snd c) \<noteq> None"
  then show "(snd (snd c), r) \<in> measure (\<lambda>r. length (data r))"
    using ReadBytes_shorter [of r LF] by simp
qed

declare read_line.simps [simp del]

record jsonTargeter =
  jbody :: bytes
  jheader :: "header option"
  jreader :: reader

definition NewJSONTargeter :: "reader \<Rightarrow> bytes \<Rightarrow> header option \<Rightarrow> jsonTargeter" where
  "NewJSONTargeter source b h = \<lparr>jbody = b, jheader = h, jreader = source\<rparr>"

text \<open>
  \<^verbatim>\<open>for k, vs := range m { dst[k] = append(dst[k], vs...) }\<close>: every key of \<open>m\<close> is
  visited once, so the order of the iteration does not show in the result.
\<close>

definition append_values :: "header \<Rightarrow> header option \<Rightarrow> header" where
  "append_values dst srcm =
     (case srcm of
        None \<Rightarrow> dst
      | Some sm \<Rightarrow>
          (\<lambda>k. case sm k of
                 None \<Rightarrow> dst k
               | Some vs \<Rightarrow> Some ((case dst k of None \<Rightarrow> [] | Some old \<Rightarrow> old) @ vs)))"

text \<open>
  \<^verbatim>\<open>jsonTargeter.Next\<close>. The generated method \<^verbatim>\<open>jsonTarget.decode\<close> and the lexer are
  not among the sources: \<open>decode line\<close> stands for \<^verbatim>\<open>t.decode(&jl)\<close> followed by
  \<^verbatim>\<open>jl.Error()\<close>, the error of the lexer or the target it has read.
\<close>

definition jsonTargeter_Next ::
  "(bytes \<Rightarrow> error + Target) \<Rightarrow> jsonTargeter \<Rightarrow> Target option \<Rightarrow>
     error option \<times> Target option \<times> jsonTargeter"
where
  "jsonTargeter_Next decode d tgt =
     (case tgt of
        None \<Rightarrow> (Some ErrNilTarget, None, d)
      | Some t0 \<Rightarrow>
         (case read_line (jreader d) of
            (Inl err, r') \<Rightarrow>
              (Some (if err = EOF then ErrNoTargets else err), Some t0, d\<lparr>jreader := r'\<rparr>)
          | (Inr line, r') \<Rightarrow>
             (case decode line of
                Inl err \<Rightarrow> (Some err, Some t0, d\<lparr>jreader := r'\<rparr>)
              | Inr t \<Rightarrow>
                  if Method t = [] then (Some ErrNoMethod, Some t0, d\<lparr>jreader := r'\<rparr>)
                  else if URL t = [] then (Some ErrNoURL, Some t0, d\<lparr>jreader := r'\<rparr>)
                  else
                    let t1 = t0\<lparr>Method := Method t, URL := URL t,
                               Body := (if length (Body t) > 0 then Body t else jbody d)\<rparr>;
                        h0 = (case Header t1 of None \<Rightarrow> Map.empty | Some m \<Rightarrow> m);
                        h1 = append_values h0 (jheader d);
                        h2 = append_values h1 (Header t)
                    in (None, Some (t1\<lparr>Header := Some h2\<rparr>), d\<lparr>jreader := r'\<rparr>))))"

section \<open>The static round-robin decoder\<close>

text \<open>
  The counter is an \<^verbatim>\<open>int64\<close>: \<^verbatim>\<open>atomic.AddInt64\<close> wraps around, \<^verbatim>\<open>%\<close> truncates
  towards zero (\<open>smod\<close>) and panics on a zero divisor, and an index outside the slice panics.
\<close>

datatype panic = DivideByZero | IndexOutOfRange

definition wrap64 :: "int \<Rightarrow> int" where
  "wrap64 x = (x + 2 ^ 63) mod 2 ^ 64 - 2 ^ 63"

definition AddInt64 :: "int \<Rightarrow> int \<Rightarrow> int" where
  "AddInt64 a d = wrap64 (a + d)"

record staticTargeter =
  tgts :: "Target list"
  i :: int

definition NewStaticTargeter :: "Target list \<Rightarrow> staticTargeter" where
  "NewStaticTargeter ts = \<lparr>tgts = ts, i = - 1\<rparr>"

definition staticTargeter_Next ::
  "staticTargeter \<Rightarrow> Target option \<Rightarrow> panic + (error option \<times> Target option \<times> staticTargeter)"
where
  "staticTargeter_Next s tgt =
     (case tgt of
        None \<Rightarrow> Inr (Some ErrNilTarget, None, s)
      | Some t \<Rightarrow>
          let n = AddInt64 (i s) 1; len = int (length (tgts s)) in
          if len = 0 then Inl DivideByZero
          else
            let k = n smod len in
            if k < 0 \<or> len \<le> k then Inl IndexOutOfRange
            else Inr (None, Some (tgts s ! nat k), s\<lparr>i := n\<rparr>))"

text \<open>The results of \<open>n\<close> consecutive calls of one caller; a panic ends the run.\<close>

fun static_calls ::
  "nat \<Rightarrow> staticTargeter \<Rightarrow> Target \<Rightarrow> (panic + error option \<times> Target option) list"
where
  "static_calls 0 s out = []"
| "static_calls (Suc n) s out =
     (case staticTargeter_Next s (Some out) of
        Inl p \<Rightarrow> [Inl p]
      | Inr (e, t, s') \<Rightarrow> Inr (e, t) # static_calls n s' out)"

section \<open>ReadAllTargets\<close>

text \<open>
  A targeter is any state \<open>tr\<close> with a \<^verbatim>\<open>Next\<close> function \<open>nxt\<close>, which gets the fresh
  target of the iteration and returns the error, the target as it leaves it and its next
  state. The loop need not end (the static decoder never reports exhaustion), so it is a
  partial function: \<open>None\<close> is a run that does not return.
\<close>

partial_function (option) ReadAllTargets_loop ::
  "('s \<Rightarrow> Target \<Rightarrow> error option \<times> Target \<times> 's) \<Rightarrow> 's \<Rightarrow> Target list \<Rightarrow>
     (error + Target list) option"
where
  "ReadAllTargets_loop nxt tr acc =
     (case nxt tr zeroTarget of
        (err, tgt, tr') \<Rightarrow>
          if err = Some ErrNoTargets then Some (Inr acc)
          else if err \<noteq> None then Some (Inl (the err))
          else ReadAllTargets_loop nxt tr' (acc @ [tgt]))"

definition ReadAllTargets ::
  "('s \<Rightarrow> Target \<Rightarrow> error option \<times> Target \<times> 's) \<Rightarrow> 's \<Rightarrow>
     (Target list \<times> error option) option"
where
  "ReadAllTargets nxt tr =
     (case ReadAllTargets_loop nxt tr [] of
        None \<Rightarrow> None
      | Some (Inl err) \<Rightarrow> Some ([], Some err)
      | Some (Inr ts) \<Rightarrow>
          if length ts = 0 then Some ([], Some ErrNoTargets) else Some (ts, None))"

section \<open>Target.Equal and the JSON encoder\<close>

text \<open>
  \<^verbatim>\<open>Target.Equal\<close>. The first case of the source compares the two pointers; two
  pointers to the same target hold the same value, for which the last case is true as
  well, so the model compares values.
\<close>

definition Equal :: "Target option \<Rightarrow> Target option \<Rightarrow> bool" where
  "Equal t other =
     (case (t, other) of
        (None, None) \<Rightarrow> True
      | (None, Some b) \<Rightarrow> False
      | (Some a, None) \<Rightarrow> False
      | (Some a, Some b) \<Rightarrow>
          if \<not> (Method a = Method b \<and> URL a = URL b \<and> Body a = Body b \<and>
                 hlen (Header a) = hlen (Header b)) then False
          else
            (\<forall>k \<in> hkeys (Header a).
               length (hget (Header a) k) = length (hget (Header b) k) \<and>
               (\<forall>n < length (hget (Header a) k). hget (Header a) k ! n = hget (Header b) k ! n)))"

text \<open>
  The encoder that \<^verbatim>\<open>NewJSONTargetEncoder\<close> returns, on a writer that holds the bytes
  \<open>w\<close> and accepts every write, called while its buffer holds no earlier error:
  \<open>encode t\<close> stands for \<^verbatim>\<open>(*jsonTarget)(t).encode(&jw)\<close>, the error it leaves in
  \<^verbatim>\<open>jw.Error\<close> or the bytes it has buffered.
\<close>

definition JSONTargetEncoder ::
  "(Target \<Rightarrow> error + bytes) \<Rightarrow> bytes \<Rightarrow> Target \<Rightarrow> error option \<times> bytes"
where
  "JSONTargetEncoder encode w t =
     (case encode t of
        Inl err \<Rightarrow> (Some err, w)
      | Inr js \<Rightarrow> (None, w @ js @ [LF]))"

section \<open>The serialization of a target\<close>

text \<open>
  Modelled from the spec: the methods \<^verbatim>\<open>jsonTarget.encode\<close> and \<^verbatim>\<open>jsonTarget.decode\<close>
  and the lexer and writer they run on are generated or imported code that is not among
  the sources. The specification says that a target is written as one compact JSON
  object with the exact field names of the format, that the body is binary-encoded (the
  comment above \<^verbatim>\<open>NewJSONTargeter\<close> says base64), that the header maps a name to the
  ordered list of its values, and that \<^verbatim>\<open>method\<close> and \<^verbatim>\<open>url\<close> are required while
  \<^verbatim>\<open>body\<close> and \<^verbatim>\<open>header\<close> are optional; the tags of the fields of \<^verbatim>\<open>Target\<close> give
  the names \<^verbatim>\<open>method\<close>, \<^verbatim>\<open>url\<close>, \<^verbatim>\<open>body\<close>, \<^verbatim>\<open>header\<close> and \<^verbatim>\<open>name\<close>, the last
  three left out when empty. The definitions of this section follow these words: JSON
  strings with their escapes, base64 with padding, the tokens of an object, and a parser
  that accepts the five fields in any order.
\<close>

subsection \<open>JSON strings\<close>

text \<open>
  Modelled from the spec: a string is written between quotation marks; the quotation
  mark and the backslash are escaped with a backslash, a control character (a line feed
  among them) as \<^verbatim>\<open>\u00XX\<close>, and every other byte stands for itself.
\<close>

definition dq :: char where
  "dq = CHR 0x22"

definition bsl :: char where
  "bsl = CHR 0x5C"

definition hexdigit :: "nat \<Rightarrow> char" where
  "hexdigit n = ''0123456789abcdef'' ! n"

definition hexval :: "char \<Rightarrow> nat option" where
  "hexval c =
     (let n = (of_char c :: nat) in
      if 48 \<le> n \<and> n \<le> 57 then Some (n - 48)
      else if 97 \<le> n \<and> n \<le> 102 then Some (n - 87)
      else if 65 \<le> n \<and> n \<le> 70 then Some (n - 55)
      else None)"

definition escape_char :: "char \<Rightarrow> string" where
  "escape_char c =
     (if c = dq then [bsl, dq]
      else if c = bsl then [bsl, bsl]
      else if (of_char c :: nat) < 32 then
        [bsl, CHR ''u'', CHR ''0'', CHR ''0'', hexdigit (of_char c div 16), hexdigit (of_char c mod 16)]
      else [c])"

definition quote :: "string \<Rightarrow> string" where
  "quote s = dq # concat (map escape_char s) @ [dq]"

text \<open>
  Modelled from the spec: the tokens of a line are the six punctuation marks of an object
  of strings and the strings; white space between tokens is skipped. The lexer is in one
  of four states: outside a string, inside one (with the bytes read so far), after a
  backslash, and inside the four hexadecimal digits of a \<^verbatim>\<open>\u\<close> escape, which names
  a code point below 65536 and stands for its UTF-8 bytes (\<open>utf8\<close>).
\<close>

definition utf8 :: "nat \<Rightarrow> string" where
  "utf8 n =
     (if n < 128 then [char_of n]
      else if n < 2048 then [char_of (192 + n div 64), char_of (128 + n mod 64)]
      else [char_of (224 + n div 4096), char_of (128 + (n div 64) mod 64), char_of (128 + n mod 64)])"

datatype jtok = Punct char | Str string

datatype lstate = Out | In string | Esc string | Uni string "nat list"

fun lex :: "lstate \<Rightarrow> string \<Rightarrow> jtok list option" where
  "lex Out [] = Some []"
| "lex (In acc) [] = None"
| "lex (Esc acc) [] = None"
| "lex (Uni acc ds) [] = None"
| "lex Out (c # cs) =
     (if c \<in> set ''{}[]:,'' then map_option (Cons (Punct c)) (lex Out cs)
      else if c = dq then lex (In []) cs
      else if c \<in> {CHR 0x20, CHR 0x09, CHR 0x0A, CHR 0x0D} then lex Out cs
      else None)"
| "lex (In acc) (c # cs) =
     (if c = dq then map_option (Cons (Str acc)) (lex Out cs)
      else if c = bsl then lex (Esc acc) cs
      else if (of_char c :: nat) < 32 then None
      else lex (In (acc @ [c])) cs)"
| "lex (Esc acc) (c # cs) =
     (if c = dq then lex (In (acc @ [dq])) cs
      else if c = bsl then lex (In (acc @ [bsl])) cs
      else if c = CHR ''/'' then lex (In (acc @ ''/'')) cs
      else if c = CHR ''b'' then lex (In (acc @ [CHR 0x08])) cs
      else if c = CHR ''f'' then lex (In (acc @ [CHR 0x0C])) cs
      else if c = CHR ''n'' then lex (In (acc @ [CHR 0x0A])) cs
      else if c = CHR ''r'' then lex (In (acc @ [CHR 0x0D])) cs
      else if c = CHR ''t'' then lex (In (acc @ [CHR 0x09])) cs
      else if c = CHR ''u'' then lex (Uni acc []) cs
      else None)"
| "lex (Uni acc ds) (c # cs) =
     (case hexval c of
        None \<Rightarrow> None
      | Some v \<Rightarrow>
          if length ds < 3 then lex (Uni acc (ds @ [v])) cs
          else lex (In (acc @ utf8 (foldl (\<lambda>a d. a * 16 + d) 0 (ds @ [v])))) cs)"

text \<open>
  Modelled from the spec: the writer. A punctuation mark is written as it is, a string
  quoted; compact means that the tokens follow one another with nothing in between.
\<close>

fun render_tok :: "jtok \<Rightarrow> string" where
  "render_tok (Punct c) = [c]"
| "render_tok (Str s) = quote s"

definition render :: "jtok list \<Rightarrow> string" where
  "render toks = concat (map render_tok toks)"

abbreviation LBrace :: jtok where "LBrace \<equiv> Punct (CHR ''{'')"
abbreviation RBrace :: jtok where "RBrace \<equiv> Punct (CHR ''}'')"
abbreviation LBrack :: jtok where "LBrack \<equiv> Punct (CHR ''['')"
abbreviation RBrack :: jtok where "RBrack \<equiv> Punct (CHR '']'')"
abbreviation Colon :: jtok where "Colon \<equiv> Punct (CHR '':'')"
abbreviation Comma :: jtok where "Comma \<equiv> Punct (CHR '','')"

subsection \<open>Base64\<close>

text \<open>
  Modelled from the spec: the body is written in base64, the standard alphabet with
  padding. Three octets \<open>a\<close>, \<open>b\<close>, \<open>c\<close> make the four sextets \<open>sext1 a\<close>, \<open>sext2 a b\<close>,
  \<open>sext3 b c\<close>, \<open>sext4 c\<close>, and four sextets \<open>x\<close>, \<open>y\<close>, \<open>z\<close>, \<open>w\<close> the three octets
  \<open>oct1 x y\<close>, \<open>oct2 y z\<close>, \<open>oct3 z w\<close>; one or two octets left at the end make two or
  three sextets and are padded with \<^verbatim>\<open>=\<close>.
\<close>

definition b64digit :: "nat \<Rightarrow> char" where
  "b64digit n =
     (if n < 26 then char_of (65 + n)
      else if n < 52 then char_of (71 + n)
      else if n < 62 then char_of (n - 4)
      else if n = 62 then CHR ''+'' else CHR ''/'')"

definition b64val :: "char \<Rightarrow> nat option" where
  "b64val c =
     (if 65 \<le> (of_char c :: nat) \<and> (of_char c :: nat) \<le> 90 then Some (of_char c - 65)
      else if 97 \<le> (of_char c :: nat) \<and> (of_char c :: nat) \<le> 122 then Some (of_char c - 71)
      else if 48 \<le> (of_char c :: nat) \<and> (of_char c :: nat) \<le> 57 then Some (of_char c + 4)
      else if c = CHR ''+'' then Some 62
      else if c = CHR ''/'' then Some 63
      else None)"

definition sext1 :: "nat \<Rightarrow> nat" where "sext1 a = a div 4"
definition sext2 :: "nat \<Rightarrow> nat \<Rightarrow> nat" where "sext2 a b = (a mod 4) * 16 + b div 16"
definition sext3 :: "nat \<Rightarrow> nat \<Rightarrow> nat" where "sext3 b c = (b mod 16) * 4 + c div 64"
definition sext4 :: "nat \<Rightarrow> nat" where "sext4 c = c mod 64"

definition oct1 :: "nat \<Rightarrow> nat \<Rightarrow> nat" where "oct1 x y = x * 4 + y div 16"
definition oct2 :: "nat \<Rightarrow> nat \<Rightarrow> nat" where "oct2 y z = (y mod 16) * 16 + z div 4"
definition oct3 :: "nat \<Rightarrow> nat \<Rightarrow> nat" where "oct3 z w = (z mod 4) * 64 + w"

fun b64enc :: "bytes \<Rightarrow> string" where
  "b64enc (a # b # c # r) =
     [b64digit (sext1 (of_char a)), b64digit (sext2 (of_char a) (of_char b)),
      b64digit (sext3 (of_char b) (of_char c)), b64digit (sext4 (of_char c))] @ b64enc r"
| "b64enc [a, b] =
     [b64digit (sext1 (of_char a)), b64digit (sext2 (of_char a) (of_char b)),
      b64digit (sext3 (of_char b) 0), CHR ''='']"
| "b64enc [a] =
     [b64digit (sext1 (of_char a)), b64digit (sext2 (of_char a) 0), CHR ''='', CHR ''='']"
| "b64enc [] = []"

fun b64dec :: "string \<Rightarrow> bytes option" where
  "b64dec [] = Some []"
| "b64dec (p # q # r # s # rest) =
     (case (b64val p, b64val q) of
        (Some x, Some y) \<Rightarrow>
          if s = CHR ''='' then
            (if rest \<noteq> [] then None
             else if r = CHR ''='' then Some [char_of (oct1 x y)]
             else (case b64val r of
                     None \<Rightarrow> None
                   | Some z \<Rightarrow> Some [char_of (oct1 x y), char_of (oct2 y z)]))
          else
            (case (b64val r, b64val s) of
               (Some z, Some w) \<Rightarrow>
                 map_option ((@) [char_of (oct1 x y), char_of (oct2 y z), char_of (oct3 z w)])
                   (b64dec rest)
             | _ \<Rightarrow> None)
      | _ \<Rightarrow> None)"
| "b64dec _ = None"

subsection \<open>The object of a target\<close>

text \<open>
  Modelled from the spec: the ordered list of the values of a header name, written
  \<^verbatim>\<open>["v1","v2"]\<close>, and the header, an object of such lists, written
  \<^verbatim>\<open>{"k1":["v1","v2"],"k2":[]}\<close>.
\<close>

fun strs_tail_toks :: "string list \<Rightarrow> jtok list" where
  "strs_tail_toks [] = [RBrack]"
| "strs_tail_toks (v # vs) = Comma # Str v # strs_tail_toks vs"

fun strs_toks :: "string list \<Rightarrow> jtok list" where
  "strs_toks [] = [LBrack, RBrack]"
| "strs_toks (v # vs) = LBrack # Str v # strs_tail_toks vs"

fun hdr_tail_toks :: "(string \<times> string list) list \<Rightarrow> jtok list" where
  "hdr_tail_toks [] = [RBrace]"
| "hdr_tail_toks ((k, vs) # kvs) = Comma # Str k # Colon # strs_toks vs @ hdr_tail_toks kvs"

fun hdr_toks :: "(string \<times> string list) list \<Rightarrow> jtok list" where
  "hdr_toks [] = [LBrace, RBrace]"
| "hdr_toks ((k, vs) # kvs) = LBrace # Str k # Colon # strs_toks vs @ hdr_tail_toks kvs"

text \<open>
  Modelled from the spec: \<^verbatim>\<open>jsonTarget.encode\<close>. The fields \<^verbatim>\<open>method\<close> and \<^verbatim>\<open>url\<close>
  are always written; \<^verbatim>\<open>body\<close>, \<^verbatim>\<open>header\<close> and \<^verbatim>\<open>name\<close> are written when they are not
  empty. The order in which Go visits the names of a map is not fixed: \<open>ks\<close> is the list
  of the names of the header in the order of the visit.
\<close>

definition target_toks :: "string list \<Rightarrow> Target \<Rightarrow> jtok list" where
  "target_toks ks t =
     [LBrace, Str ''method'', Colon, Str (Method t), Comma, Str ''url'', Colon, Str (URL t)] @
     (if Body t = [] then [] else [Comma, Str ''body'', Colon, Str (b64enc (Body t))]) @
     (if ks = [] then []
      else Comma # Str ''header'' # Colon # hdr_toks (map (\<lambda>k. (k, hget (Header t) k)) ks)) @
     (if Name t = [] then [] else [Comma, Str ''name'', Colon, Str (Name t)]) @
     [RBrace]"

definition jsonTarget_encode :: "string list \<Rightarrow> Target \<Rightarrow> error + bytes" where
  "jsonTarget_encode ks t = Inr (render (target_toks ks t))"

text \<open>
  Modelled from the spec: the parser of a list of values; it returns the values and the
  tokens after the closing bracket.
\<close>

fun parse_strs_tail :: "jtok list \<Rightarrow> (string list \<times> jtok list) option" where
  "parse_strs_tail [] = None"
| "parse_strs_tail (Str s # r) = None"
| "parse_strs_tail (Punct c # r) =
     (if c = CHR '']'' then Some ([], r)
      else if c = CHR '','' then
        (case r of
           Str s # r' \<Rightarrow>
             (case parse_strs_tail r' of None \<Rightarrow> None | Some (ss, r'') \<Rightarrow> Some (s # ss, r''))
         | _ \<Rightarrow> None)
      else None)"

definition parse_strs :: "jtok list \<Rightarrow> (string list \<times> jtok list) option" where
  "parse_strs toks =
     (case toks of
        Punct a # r \<Rightarrow>
          if a \<noteq> CHR ''['' then None
          else (case r of
                  Str s # r' \<Rightarrow>
                    (case parse_strs_tail r' of
                       None \<Rightarrow> None
                     | Some (ss, r'') \<Rightarrow> Some (s # ss, r''))
                | _ \<Rightarrow> parse_strs_tail r)
      | _ \<Rightarrow> None)"

lemma parse_strs_tail_len: "parse_strs_tail r = Some (ss, r') \<Longrightarrow> length r' < length r"
proof (induction r arbitrary: ss r' rule: parse_strs_tail.induct)
  case (3 c r)
  show ?case
  proof (cases "c = CHR '']''")
    case True
    with 3(2) show ?thesis by simp
  next
    case False
    with 3(2) obtain s r1 ss1 where c: "c = CHR '',''" and r: "r = Str s # r1"
      and p: "parse_strs_tail r1 = Some (ss1, r')"
      by (auto split: if_splits list.splits jtok.splits option.splits)
    from 3(1) [OF False c r refl p] r show ?thesis by simp
  qed
qed simp_all

lemma parse_strs_len: "parse_strs r = Some (ss, r') \<Longrightarrow> length r' < length r"
  by (auto simp: parse_strs_def split: list.splits jtok.splits if_splits option.splits
      dest: parse_strs_tail_len)

text \<open>
  Modelled from the spec: the parser of a header. A name that occurs again replaces the
  values read for it before, as an assignment to a Go map does.
\<close>

definition parse_hdr_member :: "jtok list \<Rightarrow> ((string \<times> string list) \<times> jtok list) option" where
  "parse_hdr_member toks =
     (case toks of
        Str k # Punct c # r \<Rightarrow>
          if c \<noteq> CHR '':'' then None
          else (case parse_strs r of None \<Rightarrow> None | Some (vs, r') \<Rightarrow> Some ((k, vs), r'))
      | _ \<Rightarrow> None)"

lemma parse_hdr_member_len:
  "parse_hdr_member r = Some (kv, r') \<Longrightarrow> length r' < length r"
  by (auto simp: parse_hdr_member_def split: list.splits jtok.splits if_splits option.splits
      dest: parse_strs_len)

function parse_hdr_tail :: "header \<Rightarrow> jtok list \<Rightarrow> (header \<times> jtok list) option" where
  "parse_hdr_tail m [] = None"
| "parse_hdr_tail m (Str s # r) = None"
| "parse_hdr_tail m (Punct c # r) =
     (if c = CHR ''}'' then Some (m, r)
      else if c = CHR '','' then
        (case parse_hdr_member r of
           None \<Rightarrow> None
         | Some ((k, vs), r') \<Rightarrow> parse_hdr_tail (m(k \<mapsto> vs)) r')
      else None)"
  by pat_completeness auto
termination
proof (relation "measure (\<lambda>(m, toks). length toks)")
  show "wf (measure (\<lambda>(m, toks). length toks))" by simp
next
  fix m :: header and c r x2 x y k vs
  assume "parse_hdr_member r = Some x2" and "(x, y) = x2" and "(k, vs) = x"
  then have "length y < length r" by (auto dest: parse_hdr_member_len)
  then show "((m(k \<mapsto> vs), y), m, Punct c # r) \<in> measure (\<lambda>(m, toks). length toks)"
    by simp
qed

lemma parse_hdr_tail_len: "parse_hdr_tail m r = Some (m', r') \<Longrightarrow> length r' < length r"
proof (induction m r arbitrary: m' r' rule: parse_hdr_tail.induct)
  case (3 m c r)
  show ?case
  proof (cases "c = CHR ''}''")
    case True
    with 3(2) show ?thesis by simp
  next
    case False
    with 3(2) obtain k vs r1 where c: "c = CHR '',''"
      and p: "parse_hdr_member r = Some ((k, vs), r1)"
      and t: "parse_hdr_tail (m(k \<mapsto> vs)) r1 = Some (m', r')"
      by (auto split: if_splits option.splits prod.splits)
    from 3(1) [OF False c p refl refl t] parse_hdr_member_len [OF p] show ?thesis by simp
  qed
qed simp_all

definition parse_hdr :: "jtok list \<Rightarrow> (header \<times> jtok list) option" where
  "parse_hdr toks =
     (case toks of
        Punct a # r \<Rightarrow>
          if a \<noteq> CHR ''{'' then None
          else (case r of
                  Punct c # r' \<Rightarrow> if c = CHR ''}'' then Some (Map.empty, r') else None
                | _ \<Rightarrow>
                   (case parse_hdr_member r of
                      None \<Rightarrow> None
                    | Some ((k, vs), r') \<Rightarrow> parse_hdr_tail [k \<mapsto> vs] r'))
      | _ \<Rightarrow> None)"

lemma parse_hdr_len: "parse_hdr r = Some (m, r') \<Longrightarrow> length r' < length r"
  by (auto simp: parse_hdr_def split: list.splits jtok.splits if_splits option.splits prod.splits
      dest!: parse_hdr_member_len parse_hdr_tail_len)

text \<open>
  Modelled from the spec: \<^verbatim>\<open>jsonTarget.decode\<close>. One field of the object: its name, a
  colon and its value, stored in the target read so far. The value of \<^verbatim>\<open>header\<close> is an
  object, the others are strings, the one of \<^verbatim>\<open>body\<close> in base64. A field of any other
  name is an error, and so is everything that is not an object of these fields.
\<close>

definition parse_member :: "Target \<Rightarrow> jtok list \<Rightarrow> (Target \<times> jtok list) option" where
  "parse_member t toks =
     (case toks of
        Str k # Punct c # r \<Rightarrow>
          if c \<noteq> CHR '':'' then None
          else if k = ''header'' then
            (case parse_hdr r of None \<Rightarrow> None | Some (m, r') \<Rightarrow> Some (t\<lparr>Header := Some m\<rparr>, r'))
          else
            (case r of
               Str v # r' \<Rightarrow>
                 if k = ''method'' then Some (t\<lparr>Method := v\<rparr>, r')
                 else if k = ''url'' then Some (t\<lparr>URL := v\<rparr>, r')
                 else if k = ''name'' then Some (t\<lparr>Name := v\<rparr>, r')
                 else if k = ''body'' then
                   (case b64dec v of None \<Rightarrow> None | Some b \<Rightarrow> Some (t\<lparr>Body := b\<rparr>, r'))
                 else None
             | _ \<Rightarrow> None)
      | _ \<Rightarrow> None)"

lemma parse_member_len: "parse_member t r = Some (t', r') \<Longrightarrow> length r' < length r"
  by (auto simp: parse_member_def split: list.splits jtok.splits if_splits option.splits
      dest!: parse_hdr_len)

function parse_obj_tail :: "Target \<Rightarrow> jtok list \<Rightarrow> Target option" where
  "parse_obj_tail t [] = None"
| "parse_obj_tail t (Str s # r) = None"
| "parse_obj_tail t (Punct c # r) =
     (if c = CHR ''}'' then (if r = [] then Some t else None)
      else if c = CHR '','' then
        (case parse_member t r of None \<Rightarrow> None | Some (t', r') \<Rightarrow> parse_obj_tail t' r')
      else None)"
  by pat_completeness auto
termination
proof (relation "measure (\<lambda>(t, toks). length toks)")
  show "wf (measure (\<lambda>(t, toks). length toks))" by simp
next
  fix t :: Target and c r x2 t' r'
  assume "parse_member t r = Some x2" and "(t', r') = x2"
  then have "length r' < length r" by (auto dest: parse_member_len)
  then show "((t', r'), t, Punct c # r) \<in> measure (\<lambda>(t, toks). length toks)"
    by simp
qed

definition parse_target :: "jtok list \<Rightarrow> Target option" where
  "parse_target toks =
     (case toks of
        Punct a # r \<Rightarrow>
          if a \<noteq> CHR ''{'' then None
          else (case r of
                  Punct c # r' \<Rightarrow> if c = CHR ''}'' \<and> r' = [] then Some zeroTarget else None
                | _ \<Rightarrow>
                   (case parse_member zeroTarget r of
                      None \<Rightarrow> None
                    | Some (t', r') \<Rightarrow> parse_obj_tail t' r'))
      | _ \<Rightarrow> None)"

definition jsonTarget_decode :: "bytes \<Rightarrow> error + Target" where
  "jsonTarget_decode l =
     (case lex Out l of
        None \<Rightarrow> Inl (OtherError ''parse error'')
      | Some toks \<Rightarrow>
          (case parse_target toks of
             None \<Rightarrow> Inl (OtherError ''parse error'')
           | Some t \<Rightarrow> Inr t))"

text \<open>The punctuation marks that are tokens.\<close>

fun punct_ok :: "jtok \<Rightarrow> bool" where
  "punct_ok (Punct c) = (c \<in> set ''{}[]:,'')"
| "punct_ok (Str s) = True"

section \<open>Notions of the specification\<close>

text \<open>The lines the peeking scanner will hand out: the peeked line, then the source's.\<close>

definition upcoming :: "peekingScanner \<Rightarrow> string list" where
  "upcoming s = (if peeked s = [] then [] else [peeked s]) @ pending (src s)"

text \<open>A blank line or a comment: trimmed, it is empty or starts with \<^verbatim>\<open>#\<close>.\<close>

definition skippable :: "string \<Rightarrow> bool" where
  "skippable l = (TrimSpace l = [] \<or> hd (TrimSpace l) = CHR ''#'')"

text \<open>The tokens of a line that white space separates.\<close>

definition ascii_space :: "char \<Rightarrow> bool" where
  "ascii_space c = (c \<in> {CHR 0x09, CHR 0x0A, CHR 0x0B, CHR 0x0C, CHR 0x0D, CHR 0x20})"

fun ws_tokens :: "string \<Rightarrow> string list" where
  "ws_tokens [] = []"
| "ws_tokens (c # cs) =
     (if ascii_space c then ws_tokens cs
      else (case ws_tokens cs of
              [] \<Rightarrow> [[c]]
            | w # ws \<Rightarrow>
                if cs \<noteq> [] \<and> \<not> ascii_space (hd cs) then (c # w) # ws else [c] # w # ws))"

text \<open>The two tokens \<^verbatim>\<open>strings.SplitN(line, " ", 2)\<close> yields for a line with a space.\<close>

definition before_space :: "string \<Rightarrow> string" where
  "before_space s = takeWhile (\<lambda>c. c \<noteq> CHR '' '') s"

definition after_space :: "string \<Rightarrow> string" where
  "after_space s = tl (dropWhile (\<lambda>c. c \<noteq> CHR '' '') s)"

text \<open>A method/URL line that \<^verbatim>\<open>Next\<close> accepts.\<close>

definition request_line :: "env \<Rightarrow> string \<Rightarrow> bool" where
  "request_line e l =
     (\<not> skippable l \<and> CHR '' '' \<in> set (TrimSpace l) \<and> startsWithHTTPMethod (TrimSpace l) \<and>
      ParseRequestURI e (after_space (TrimSpace l)))"

text \<open>A line of the JSON stream that holds white space only (\<open>b\<close> is the line without its line feed).\<close>

definition blank_line :: "bytes \<Rightarrow> bool" where
  "blank_line b = (LF \<notin> set b \<and> TrimSpace (b @ [LF]) = [])"

text \<open>
  \<open>produces nxt s ts\<close>: the calls of \<open>nxt\<close> from state \<open>s\<close> on, each with a fresh target,
  succeed \<open>length ts\<close> times in a row and produce the targets \<open>ts\<close> in this order; the result
  is the state after them.
\<close>

fun produces ::
  "('s \<Rightarrow> Target \<Rightarrow> error option \<times> Target \<times> 's) \<Rightarrow> 's \<Rightarrow> Target list \<Rightarrow> 's option"
where
  "produces nxt s [] = Some s"
| "produces nxt s (t # ts) =
     (case nxt s zeroTarget of
        (None, t', s') \<Rightarrow> if t' = t then produces nxt s' ts else None
      | (Some err, t', s') \<Rightarrow> None)"

section \<open>Trimming\<close>

lemma space_runes_nonempty: "r \<in> set space_runes \<Longrightarrow> r \<noteq> []"
  by (auto simp: space_runes_def)

lemma ascii_space_rune: "ascii_space c \<Longrightarrow> [c] \<in> set space_runes"
  by (auto simp: ascii_space_def space_runes_def)

lemma leading_space_0_iff: "leading_space s = 0 \<longleftrightarrow> (\<forall>r \<in> set space_runes. \<not> prefix r s)"
proof (cases "find (\<lambda>r. prefix r s) space_runes")
  case None
  then have "\<forall>r \<in> set space_runes. \<not> prefix r s" by (simp add: find_None_iff)
  moreover from None have "leading_space s = 0" by (simp add: leading_space_def)
  ultimately show ?thesis by simp
next
  case (Some r)
  then have "r \<in> set space_runes" and "prefix r s"
    by (auto simp: find_Some_iff)
  moreover from this have "r \<noteq> []" by (simp add: space_runes_nonempty)
  ultimately show ?thesis using Some by (auto simp: leading_space_def)
qed

lemma trailing_space_0_iff: "trailing_space s = 0 \<longleftrightarrow> (\<forall>r \<in> set space_runes. \<not> suffix r s)"
proof (cases "find (\<lambda>r. suffix r s) space_runes")
  case None
  then have "\<forall>r \<in> set space_runes. \<not> suffix r s" by (simp add: find_None_iff)
  moreover from None have "trailing_space s = 0" by (simp add: trailing_space_def)
  ultimately show ?thesis by simp
next
  case (Some r)
  then have "r \<in> set space_runes" and "suffix r s"
    by (auto simp: find_Some_iff)
  moreover from this have "r \<noteq> []" by (simp add: space_runes_nonempty)
  ultimately show ?thesis using Some by (auto simp: trailing_space_def)
qed

lemma trimLeft_id: "leading_space s = 0 \<Longrightarrow> trimLeft s = s"
  by (simp add: trimLeft.simps)

lemma trimRight_id: "trailing_space s = 0 \<Longrightarrow> trimRight s = s"
  by (simp add: trimRight.simps)

lemma TrimSpace_id: "leading_space s = 0 \<Longrightarrow> trailing_space s = 0 \<Longrightarrow> TrimSpace s = s"
  by (simp add: TrimSpace_def trimLeft_id trimRight_id)

lemma TrimSpace_Nil [simp]: "TrimSpace [] = []"
  by (simp add: TrimSpace_id leading_space_0_iff trailing_space_0_iff space_runes_nonempty)

lemma leading_space_trimLeft: "leading_space (trimLeft s) = 0"
  by (induction s rule: trimLeft.induct) (simp add: trimLeft.simps)

lemma trailing_space_trimRight: "trailing_space (trimRight s) = 0"
  by (induction s rule: trimRight.induct) (simp add: trimRight.simps)

lemma prefix_trimRight: "prefix (trimRight s) s"
proof (induction s rule: trimRight.induct)
  case (1 s)
  show ?case
  proof (cases "trailing_space s = 0")
    case True
    then show ?thesis by (simp add: trimRight.simps)
  next
    case False
    with 1 have "prefix (trimRight (take (length s - trailing_space s) s))
        (take (length s - trailing_space s) s)"
      by simp
    moreover have "prefix (take (length s - trailing_space s) s) s"
      by (rule take_is_prefix)
    ultimately have "prefix (trimRight (take (length s - trailing_space s) s)) s"
      by (rule prefix_order.order_trans)
    with False show ?thesis by (simp add: trimRight.simps)
  qed
qed

lemma hd_not_space:
  assumes "leading_space s = 0" and "s \<noteq> []"
  shows "\<not> ascii_space (hd s)"
proof
  assume "ascii_space (hd s)"
  then have "[hd s] \<in> set space_runes" by (rule ascii_space_rune)
  moreover from assms(2) have "prefix [hd s] s" by (cases s) simp_all
  ultimately show False using assms(1) by (auto simp: leading_space_0_iff)
qed

lemma last_not_space:
  assumes "trailing_space s = 0" and "s \<noteq> []"
  shows "\<not> ascii_space (last s)"
proof
  assume "ascii_space (last s)"
  then have "[last s] \<in> set space_runes" by (rule ascii_space_rune)
  moreover from assms(2) have "suffix [last s] s"
    by (metis append_butlast_last_id suffixI)
  ultimately show False using assms(1) by (auto simp: trailing_space_0_iff)
qed

lemma TrimSpace_ends:
  assumes "TrimSpace s \<noteq> []"
  shows "\<not> ascii_space (hd (TrimSpace s))" and "\<not> ascii_space (last (TrimSpace s))"
proof -
  have p: "prefix (TrimSpace s) (trimLeft s)"
    by (simp add: TrimSpace_def prefix_trimRight)
  with assms have ne: "trimLeft s \<noteq> []" by auto
  from p assms have "hd (TrimSpace s) = hd (trimLeft s)"
    by (auto simp: prefix_def)
  moreover have "\<not> ascii_space (hd (trimLeft s))"
    using ne leading_space_trimLeft by (rule hd_not_space [rotated])
  ultimately show "\<not> ascii_space (hd (TrimSpace s))" by simp
  show "\<not> ascii_space (last (TrimSpace s))"
    using assms trailing_space_trimRight [of "trimLeft s"]
    by (simp add: TrimSpace_def last_not_space)
qed

text \<open>Evaluating \<open>TrimSpace\<close> on a line that has nothing to trim.\<close>

lemmas trim_eval = TrimSpace_id leading_space_def trailing_space_def space_runes_def suffix_def

text \<open>Blank lines, and lines that end in a line feed.\<close>

lemma leading_space_ascii:
  assumes "ascii_space c"
  shows "leading_space (c # s) = 1"
proof -
  from assms
  have "c = CHR 0x09 \<or> c = CHR 0x0A \<or> c = CHR 0x0B \<or> c = CHR 0x0C \<or> c = CHR 0x0D \<or> c = CHR 0x20"
    by (simp add: ascii_space_def)
  then show ?thesis
    by (elim disjE) (simp_all add: leading_space_def space_runes_def)
qed

lemma trimLeft_Cons_space: "ascii_space c \<Longrightarrow> trimLeft (c # s) = trimLeft s"
  by (subst trimLeft.simps) (simp add: leading_space_ascii)


lemma trimRight_LF:
  assumes "s \<noteq> []" and "leading_space s = 0" and "trailing_space s = 0"
  shows "TrimSpace (s @ [LF]) = s"
proof -
  have "\<not> prefix r (s @ [LF])" if "r \<in> set space_runes" for r
  proof
    assume p: "prefix r (s @ [LF])"
    from that assms(2) have np: "\<not> prefix r s" by (simp add: leading_space_0_iff)
    from p np have "\<exists>us. r = s @ us \<and> us \<noteq> []"
      by (metis append_Nil2 prefix_append prefix_def prefix_order.order_refl)
    then obtain us where r: "r = s @ us" "us \<noteq> []" by blast
    with p have "prefix us [LF]" by simp
    with r(2) have "us = [LF]" by (cases us) auto
    with r have "r = s @ [LF]" by simp
    moreover from assms(1) obtain a as where "s = a # as" by (cases s) auto
    ultimately have "r = a # as @ [LF]" by simp
    with that show False
      by (auto simp: space_runes_def LF_def)
  qed
  then have l: "leading_space (s @ [LF]) = 0" by (simp add: leading_space_0_iff)
  have "trailing_space (s @ [LF]) = 1"
    by (simp add: trailing_space_def space_runes_def LF_def suffix_def)
  then have "trimRight (s @ [LF]) = trimRight s"
    by (subst trimRight.simps) simp
  with l assms(3) show ?thesis
    by (simp add: TrimSpace_def trimLeft_id trimRight_id)
qed

section \<open>White-space separated tokens\<close>

lemma ws_tokens_append_ne: "ws_tokens ys \<noteq> [] \<Longrightarrow> ws_tokens (xs @ ys) \<noteq> []"
  by (induction xs) (auto split: list.splits)

lemma ws_tokens_last_ne:
  assumes "v \<noteq> []" and "\<not> ascii_space (last v)"
  shows "ws_tokens v \<noteq> []"
proof -
  from assms(2) have "ws_tokens [last v] \<noteq> []" by simp
  then have "ws_tokens (butlast v @ [last v]) \<noteq> []" by (rule ws_tokens_append_ne)
  with assms(1) show ?thesis by simp
qed

lemma ws_tokens_two:
  assumes "\<not> ascii_space c" and "ascii_space sp" and "ws_tokens v \<noteq> []"
  shows "2 \<le> length (ws_tokens (c # u @ sp # v))"
  using assms
proof (induction u arbitrary: c)
  case Nil
  then show ?case by (auto split: list.splits)
next
  case (Cons a u)
  show ?case
  proof (cases "ascii_space a")
    case True
    have "ws_tokens (u @ sp # v) \<noteq> []"
      using Cons.prems(2,3) by (intro ws_tokens_append_ne) simp
    with True Cons.prems(1) show ?thesis by (auto split: list.splits)
  next
    case False
    from Cons.IH [OF False Cons.prems(2,3)] have "2 \<le> length (ws_tokens (a # u @ sp # v))" .
    with False Cons.prems(1) show ?thesis by (auto split: list.splits)
  qed
qed

lemma few_tokens_no_space:
  assumes "TrimSpace l \<noteq> []" and "length (ws_tokens (TrimSpace l)) < 2"
  shows "CHR '' '' \<notin> set (TrimSpace l)"
proof
  let ?L = "TrimSpace l"
  assume sp: "CHR '' '' \<in> set ?L"
  from assms(1) obtain c cs where L: "?L = c # cs" by (cases ?L) auto
  have c: "\<not> ascii_space c" using TrimSpace_ends(1) [OF assms(1)] L by simp
  have z: "\<not> ascii_space (last ?L)" using TrimSpace_ends(2) [OF assms(1)] .
  from c have "c \<noteq> CHR '' ''" by (auto simp: ascii_space_def)
  with sp L have "CHR '' '' \<in> set cs" by simp
  then obtain u v where cs: "cs = u @ CHR '' '' # v" by (auto dest: split_list)
  have v: "v \<noteq> []"
  proof
    assume "v = []"
    with cs L have "last ?L = CHR '' ''" by simp
    with z show False by (simp add: ascii_space_def)
  qed
  with cs L have "last v = last ?L" by simp
  with z v have "ws_tokens v \<noteq> []" by (simp add: ws_tokens_last_ne)
  moreover have "ascii_space (CHR '' '')" by (simp add: ascii_space_def)
  ultimately have "2 \<le> length (ws_tokens (c # u @ CHR '' '' # v))"
    using c by (intro ws_tokens_two)
  with assms(2) L cs show False by simp
qed

section \<open>The peeking scanner: the peeked line\<close>

lemma peek_scan_text_nonempty:
  "pending (src s) = l # ls \<Longrightarrow> l \<noteq> [] \<Longrightarrow>
   peek_scan_text s = (l, True, l, s\<lparr>src := (src s)\<lparr>pending := ls, token := l\<rparr>, peeked := []\<rparr>)"
  by (simp add: peek_scan_text_def Peek_def Scan_def Text_def src_Scan_def src_Text_def)

text \<open>
  C1. A peeked line is to be the line that the next \<^verbatim>\<open>Scan\<close> and \<^verbatim>\<open>Text\<close>
  return, an empty line included. The scanner marks "nothing peeked" with the empty string,
  so over the lines \<open>[[], ''foo'']\<close> the peeked empty line is dropped: \<^verbatim>\<open>Peek\<close>
  returns the empty line, and \<^verbatim>\<open>Scan\<close> with \<^verbatim>\<open>Text\<close> then return \<open>''foo''\<close>.
\<close>

theorem peek_scan_text_drops_empty_line:
  "peek_scan_text \<lparr>src = NewScanner [[], ''foo''] False, peeked = []\<rparr> =
     ([], True, ''foo'',
      \<lparr>src = \<lparr>pending = [], token = ''foo'', broken = False, stopped = False\<rparr>, peeked = []\<rparr>)"
  by (simp add: peek_scan_text_def Peek_def Scan_def Text_def src_Scan_def src_Text_def
      NewScanner_def)

section \<open>The peeking scanner in terms of the lines to come\<close>

lemma Scan_upcoming_Nil: "upcoming s = [] \<Longrightarrow> \<not> fst (Scan s)"
  by (auto simp: upcoming_def Scan_def src_Scan_def split: if_splits list.splits)

lemma Scan_Text_upcoming:
  assumes "upcoming s = x # xs"
  shows "fst (Scan s)"
    and "fst (Text (snd (Scan s))) = x"
    and "upcoming (snd (Text (snd (Scan s)))) = xs"
    and "peeked (snd (Text (snd (Scan s)))) = []"
    and "broken (src (snd (Text (snd (Scan s))))) = broken (src s)"
    and "stopped (src (snd (Text (snd (Scan s))))) = stopped (src s)"
  using assms
  by (auto simp: upcoming_def Scan_def Text_def src_Scan_def src_Text_def
      split: if_splits list.splits)

lemma Peek_upcoming:
  assumes "peeked s = []" and "upcoming s = x # xs"
  shows "fst (Peek s) = x"
    and "x \<noteq> [] \<Longrightarrow> upcoming (snd (Peek s)) = x # xs"
    and "x = [] \<Longrightarrow> upcoming (snd (Peek s)) = xs"
    and "broken (src (snd (Peek s))) = broken (src s)"
    and "stopped (src (snd (Peek s))) = stopped (src s)"
  using assms
  by (auto simp: upcoming_def Peek_def src_Scan_def src_Text_def split: list.splits)

lemma Peek_upcoming_Nil:
  assumes "peeked s = []" and "upcoming s = []"
  shows "fst (Peek s) = []" and "upcoming (snd (Peek s)) = []"
  using assms
  by (auto simp: upcoming_def Peek_def src_Scan_def src_Text_def split: list.splits)

section \<open>The HTTP-text decoder: the method/URL line\<close>

lemma next_line_skips:
  assumes "upcoming s = pre @ l # rest"
    and "\<forall>x \<in> set pre. skippable x"
    and "\<not> skippable l"
  shows "\<exists>s'. next_line s = (Some (TrimSpace l), s') \<and> upcoming s' = rest \<and> peeked s' = []
           \<and> broken (src s') = broken (src s) \<and> stopped (src s') = stopped (src s)"
  using assms
proof (induction pre arbitrary: s)
  case Nil
  then have u: "upcoming s = l # rest" by simp
  from Nil(3) have "TrimSpace l \<noteq> [] \<and> hd (TrimSpace l) \<noteq> CHR ''#''"
    by (simp add: skippable_def)
  then show ?case
    using Scan_Text_upcoming [OF u]
    by (subst next_line.simps [of s]) (auto simp: Let_def)
next
  case (Cons x pre)
  then have u: "upcoming s = x # (pre @ l # rest)" by simp
  let ?s2 = "snd (Text (snd (Scan s)))"
  from Cons.prems(2) have sk: "skippable x" and rest: "\<forall>y \<in> set pre. skippable y"
    by simp_all
  have "upcoming ?s2 = pre @ l # rest" using Scan_Text_upcoming(3) [OF u] .
  from Cons.IH [OF this rest Cons.prems(3)]
  obtain s' where s': "next_line ?s2 = (Some (TrimSpace l), s')" "upcoming s' = rest"
     "peeked s' = []" "broken (src s') = broken (src ?s2)" "stopped (src s') = stopped (src ?s2)"
    by blast
  from sk have "\<not> (TrimSpace x \<noteq> [] \<and> hd (TrimSpace x) \<noteq> CHR ''#'')"
    by (auto simp: skippable_def)
  then have "next_line s = next_line ?s2"
    using Scan_Text_upcoming(1,2) [OF u]
    by (subst next_line.simps [of s]) (auto simp: Let_def)
  with s' Scan_Text_upcoming(5,6) [OF u] show ?case by simp
qed

lemma next_line_exhausted:
  assumes "\<forall>x \<in> set (upcoming s). skippable x"
  shows "fst (next_line s) = None"
  using assms
proof (induction "upcoming s" arbitrary: s)
  case Nil
  then have "\<not> fst (Scan s)" by (simp add: Scan_upcoming_Nil)
  then show ?case by (subst next_line.simps [of s]) (simp add: Let_def)
next
  case (Cons x xs)
  from Cons(2) have u: "upcoming s = x # xs" by simp
  let ?s2 = "snd (Text (snd (Scan s)))"
  have "xs = upcoming ?s2" using Scan_Text_upcoming(3) [OF u] by simp
  moreover have "\<forall>y \<in> set (upcoming ?s2). skippable y"
    using Cons(3) u Scan_Text_upcoming(3) [OF u] by simp
  ultimately have "fst (next_line ?s2) = None" by (rule Cons(1))
  moreover from Cons(3) u have "\<not> (TrimSpace x \<noteq> [] \<and> hd (TrimSpace x) \<noteq> CHR ''#'')"
    by (auto simp: skippable_def)
  then have "next_line s = next_line ?s2"
    using Scan_Text_upcoming(1,2) [OF u]
    by (subst next_line.simps [of s]) (auto simp: Let_def)
  ultimately show ?case by simp
qed

lemma Next_first_line:
  assumes "upcoming (sc h) = pre @ l # rest"
    and "\<forall>x \<in> set pre. skippable x"
    and "\<not> skippable l"
  shows "CHR '' '' \<notin> set (TrimSpace l) \<Longrightarrow>
           fst (httpTargeter_Next e h (Some t)) = Some (BadTarget (TrimSpace l))"
    and "CHR '' '' \<in> set (TrimSpace l) \<Longrightarrow> \<not> startsWithHTTPMethod (TrimSpace l) \<Longrightarrow>
           fst (httpTargeter_Next e h (Some t)) = Some (BadMethod (before_space (TrimSpace l)))"
    and "CHR '' '' \<in> set (TrimSpace l) \<Longrightarrow> startsWithHTTPMethod (TrimSpace l) \<Longrightarrow>
         \<not> ParseRequestURI e (after_space (TrimSpace l)) \<Longrightarrow>
           fst (httpTargeter_Next e h (Some t)) = Some (BadURL (after_space (TrimSpace l)))"
proof -
  from next_line_skips [OF assms] obtain s' where
    nl: "next_line (sc h) = (Some (TrimSpace l), s')" by blast
  show "CHR '' '' \<notin> set (TrimSpace l) \<Longrightarrow>
           fst (httpTargeter_Next e h (Some t)) = Some (BadTarget (TrimSpace l))"
    by (simp add: httpTargeter_Next_def nl SplitN2_def Let_def)
  show "CHR '' '' \<in> set (TrimSpace l) \<Longrightarrow> \<not> startsWithHTTPMethod (TrimSpace l) \<Longrightarrow>
           fst (httpTargeter_Next e h (Some t)) = Some (BadMethod (before_space (TrimSpace l)))"
    by (simp add: httpTargeter_Next_def nl SplitN2_def Let_def before_space_def)
  show "CHR '' '' \<in> set (TrimSpace l) \<Longrightarrow> startsWithHTTPMethod (TrimSpace l) \<Longrightarrow>
         \<not> ParseRequestURI e (after_space (TrimSpace l)) \<Longrightarrow>
           fst (httpTargeter_Next e h (Some t)) = Some (BadURL (after_space (TrimSpace l)))"
    by (simp add: httpTargeter_Next_def nl SplitN2_def Let_def after_space_def)
qed

lemma New_sel [simp]:
  "body (NewHTTPTargeter s b d) = b"
  "hdr (NewHTTPTargeter s b d) = d"
  "sc (NewHTTPTargeter s b d) = \<lparr>src = s, peeked = []\<rparr>"
  by (simp_all add: NewHTTPTargeter_def)

lemma upcoming_New [simp]: "upcoming \<lparr>src = NewScanner ls br, peeked = []\<rparr> = ls"
  by (simp add: upcoming_def NewScanner_def)

text \<open>
  C4, as the code has it. The first line of a block that is neither blank nor a comment is
  split at its first space character (U+0020), not at white space in general:
  \<^item> a line with fewer than two white-space separated tokens has no space character, and a
    line without a space character fails with \<open>BadTarget\<close>;
  \<^item> a line with a space character that does not start with upper-case ASCII letters
    followed by a white-space character fails with \<open>BadMethod\<close>, naming the text before
    the first space;
  \<^item> a line with a space character and a well-formed method whose text after the first
    space does not parse as a request URI fails with \<open>BadURL\<close>, naming that text;
  \<^item> the line \<open>GET\<close> fails with the target error, the line \<open>BadMethod https://x/y\<close>
    with the method error.
\<close>

theorem http_first_line_errors:
  "(upcoming (sc h) = pre @ l # rest \<and> (\<forall>x \<in> set pre. skippable x) \<and> \<not> skippable l \<longrightarrow>
      (length (ws_tokens (TrimSpace l)) < 2 \<longrightarrow>
         fst (httpTargeter_Next e h (Some t)) = Some (BadTarget (TrimSpace l))) \<and>
      (CHR '' '' \<notin> set (TrimSpace l) \<longrightarrow>
         fst (httpTargeter_Next e h (Some t)) = Some (BadTarget (TrimSpace l))) \<and>
      (CHR '' '' \<in> set (TrimSpace l) \<and> \<not> startsWithHTTPMethod (TrimSpace l) \<longrightarrow>
         fst (httpTargeter_Next e h (Some t)) = Some (BadMethod (before_space (TrimSpace l)))) \<and>
      (CHR '' '' \<in> set (TrimSpace l) \<and> startsWithHTTPMethod (TrimSpace l) \<and>
       \<not> ParseRequestURI e (after_space (TrimSpace l)) \<longrightarrow>
         fst (httpTargeter_Next e h (Some t)) = Some (BadURL (after_space (TrimSpace l))))) \<and>
   fst (httpTargeter_Next e1 (NewHTTPTargeter (NewScanner [''GET''] br1) b1 d1) (Some t1))
     = Some (BadTarget ''GET'') \<and>
   fst (httpTargeter_Next e2 (NewHTTPTargeter (NewScanner [''BadMethod https://x/y''] br2) b2 d2)
          (Some t2))
     = Some (BadMethod ''BadMethod'')"
proof (intro conjI impI)
  assume a: "upcoming (sc h) = pre @ l # rest \<and> (\<forall>x \<in> set pre. skippable x) \<and> \<not> skippable l"
  then have u: "upcoming (sc h) = pre @ l # rest" and p: "\<forall>x \<in> set pre. skippable x"
    and n: "\<not> skippable l"
    by simp_all
  from n have ne: "TrimSpace l \<noteq> []" by (simp add: skippable_def)
  {
    assume "length (ws_tokens (TrimSpace l)) < 2"
    with ne have "CHR '' '' \<notin> set (TrimSpace l)" by (rule few_tokens_no_space)
    then show "fst (httpTargeter_Next e h (Some t)) = Some (BadTarget (TrimSpace l))"
      by (rule Next_first_line(1) [OF u p n])
  }
  {
    assume "CHR '' '' \<notin> set (TrimSpace l)"
    then show "fst (httpTargeter_Next e h (Some t)) = Some (BadTarget (TrimSpace l))"
      by (rule Next_first_line(1) [OF u p n])
  }
  {
    assume "CHR '' '' \<in> set (TrimSpace l) \<and> \<not> startsWithHTTPMethod (TrimSpace l)"
    then show "fst (httpTargeter_Next e h (Some t)) = Some (BadMethod (before_space (TrimSpace l)))"
      using Next_first_line(2) [OF u p n] by simp
  }
  {
    assume "CHR '' '' \<in> set (TrimSpace l) \<and> startsWithHTTPMethod (TrimSpace l) \<and>
       \<not> ParseRequestURI e (after_space (TrimSpace l))"
    then show "fst (httpTargeter_Next e h (Some t)) = Some (BadURL (after_space (TrimSpace l)))"
      using Next_first_line(3) [OF u p n] by simp
  }
next
  have t: "TrimSpace ''GET'' = ''GET''" by (simp add: trim_eval)
  then have "\<not> skippable ''GET''" by (simp add: skippable_def)
  moreover have "CHR '' '' \<notin> set (TrimSpace ''GET'')" using t by simp
  ultimately have "fst (httpTargeter_Next e1 (NewHTTPTargeter (NewScanner [''GET''] br1) b1 d1) (Some t1))
     = Some (BadTarget (TrimSpace ''GET''))"
    by (intro Next_first_line(1) [where pre = "[]" and rest = "[]"]) simp_all
  with t show "fst (httpTargeter_Next e1 (NewHTTPTargeter (NewScanner [''GET''] br1) b1 d1) (Some t1))
     = Some (BadTarget ''GET'')"
    by simp
next
  let ?l = "''BadMethod https://x/y''"
  have t: "TrimSpace ?l = ?l" by (simp add: trim_eval)
  then have "\<not> skippable ?l" by (simp add: skippable_def)
  moreover have "CHR '' '' \<in> set (TrimSpace ?l)" using t by simp
  moreover have "\<not> startsWithHTTPMethod (TrimSpace ?l)"
    using t by (simp add: startsWithHTTPMethod_def upper_ascii_def re_space_def)
  ultimately have "fst (httpTargeter_Next e2 (NewHTTPTargeter (NewScanner [?l] br2) b2 d2) (Some t2))
     = Some (BadMethod (before_space (TrimSpace ?l)))"
    by (intro Next_first_line(2) [where pre = "[]" and rest = "[]"]) simp_all
  with t show "fst (httpTargeter_Next e2 (NewHTTPTargeter (NewScanner [?l] br2) b2 d2) (Some t2))
     = Some (BadMethod ''BadMethod'')"
    by (simp add: before_space_def)
qed

text \<open>
  The theorem at four concrete streams, each after a comment and a blank line: a single
  token, a line whose only white space is a tab, a lower-case method, and a URL that the
  parser rejects (here a parser that accepts the texts starting with a slash or with
  \<open>http://\<close>).
\<close>

theorem http_first_line_errors_witness:
  "fst (httpTargeter_Next
          \<lparr>ParseRequestURI = (\<lambda>u. take 1 u = ''/'' \<or> take 7 u = ''http://''),
           ReadFile = (\<lambda>p. ([], Some ''no such file''))\<rparr>
          (NewHTTPTargeter (NewScanner [''# targets'', '''', '' GET ''] False) [] None)
          (Some zeroTarget))
     = Some (BadTarget ''GET'') \<and>
   fst (httpTargeter_Next
          \<lparr>ParseRequestURI = (\<lambda>u. take 1 u = ''/'' \<or> take 7 u = ''http://''),
           ReadFile = (\<lambda>p. ([], Some ''no such file''))\<rparr>
          (NewHTTPTargeter (NewScanner [''# targets'', '''', [CHR ''G'', CHR 0x09, CHR ''/'']] False)
             [] None)
          (Some zeroTarget))
     = Some (BadTarget [CHR ''G'', CHR 0x09, CHR ''/'']) \<and>
   fst (httpTargeter_Next
          \<lparr>ParseRequestURI = (\<lambda>u. take 1 u = ''/'' \<or> take 7 u = ''http://''),
           ReadFile = (\<lambda>p. ([], Some ''no such file''))\<rparr>
          (NewHTTPTargeter (NewScanner [''# targets'', '''', ''get http://x/y''] False) [] None)
          (Some zeroTarget))
     = Some (BadMethod ''get'') \<and>
   fst (httpTargeter_Next
          \<lparr>ParseRequestURI = (\<lambda>u. take 1 u = ''/'' \<or> take 7 u = ''http://''),
           ReadFile = (\<lambda>p. ([], Some ''no such file''))\<rparr>
          (NewHTTPTargeter (NewScanner [''# targets'', '''', ''GET notaurl''] False) [] None)
          (Some zeroTarget))
     = Some (BadURL ''notaurl'')"
proof -
  let ?e = "\<lparr>ParseRequestURI = (\<lambda>u. take 1 u = ''/'' \<or> take 7 u = ''http://''),
             ReadFile = (\<lambda>p. ([], Some ''no such file''))\<rparr>"
  let ?pre = "[''# targets'', '''']"
  have pre: "\<forall>x \<in> set ?pre. skippable x"
    by (simp add: skippable_def trim_eval)
  have t1: "TrimSpace '' GET '' = ''GET''"
    by (simp add: TrimSpace_def trimLeft.simps [of "'' GET ''"] trimRight.simps [of "''GET ''"]
        trimLeft_id trimRight_id leading_space_def trailing_space_def space_runes_def suffix_def)
  have t2: "TrimSpace [CHR ''G'', CHR 0x09, CHR ''/''] = [CHR ''G'', CHR 0x09, CHR ''/'']"
    by (simp add: trim_eval)
  have t3: "TrimSpace ''get http://x/y'' = ''get http://x/y''" by (simp add: trim_eval)
  have t4: "TrimSpace ''GET notaurl'' = ''GET notaurl''" by (simp add: trim_eval)
  have th: "fst (httpTargeter_Next ?e (NewHTTPTargeter (NewScanner (?pre @ [l]) False) [] None)
                (Some zeroTarget)) = r"
    if "\<not> skippable l"
      and "(length (ws_tokens (TrimSpace l)) < 2 \<and> r = Some (BadTarget (TrimSpace l))) \<or>
           (CHR '' '' \<notin> set (TrimSpace l) \<and> r = Some (BadTarget (TrimSpace l))) \<or>
           (CHR '' '' \<in> set (TrimSpace l) \<and> \<not> startsWithHTTPMethod (TrimSpace l) \<and>
              r = Some (BadMethod (before_space (TrimSpace l)))) \<or>
           (CHR '' '' \<in> set (TrimSpace l) \<and> startsWithHTTPMethod (TrimSpace l) \<and>
              \<not> ParseRequestURI ?e (after_space (TrimSpace l)) \<and>
              r = Some (BadURL (after_space (TrimSpace l))))"
    for l r
  proof -
    have u: "upcoming (sc (NewHTTPTargeter (NewScanner (?pre @ [l]) False) [] None)) = ?pre @ l # []"
      by simp
    from http_first_line_errors
      [of "NewHTTPTargeter (NewScanner (?pre @ [l]) False) [] None" ?pre l "[]" ?e zeroTarget]
      u pre that(1)
    have "(length (ws_tokens (TrimSpace l)) < 2 \<longrightarrow>
         fst (httpTargeter_Next ?e (NewHTTPTargeter (NewScanner (?pre @ [l]) False) [] None)
           (Some zeroTarget)) = Some (BadTarget (TrimSpace l))) \<and>
      (CHR '' '' \<notin> set (TrimSpace l) \<longrightarrow>
         fst (httpTargeter_Next ?e (NewHTTPTargeter (NewScanner (?pre @ [l]) False) [] None)
           (Some zeroTarget)) = Some (BadTarget (TrimSpace l))) \<and>
      (CHR '' '' \<in> set (TrimSpace l) \<and> \<not> startsWithHTTPMethod (TrimSpace l) \<longrightarrow>
         fst (httpTargeter_Next ?e (NewHTTPTargeter (NewScanner (?pre @ [l]) False) [] None)
           (Some zeroTarget)) = Some (BadMethod (before_space (TrimSpace l)))) \<and>
      (CHR '' '' \<in> set (TrimSpace l) \<and> startsWithHTTPMethod (TrimSpace l) \<and>
       \<not> ParseRequestURI ?e (after_space (TrimSpace l)) \<longrightarrow>
         fst (httpTargeter_Next ?e (NewHTTPTargeter (NewScanner (?pre @ [l]) False) [] None)
           (Some zeroTarget)) = Some (BadURL (after_space (TrimSpace l))))"
      by blast
    with that(2) show ?thesis by blast
  qed
  have "fst (httpTargeter_Next ?e (NewHTTPTargeter (NewScanner (?pre @ ['' GET '']) False) [] None)
          (Some zeroTarget)) = Some (BadTarget ''GET'')"
    using t1 by (intro th) (simp_all add: skippable_def ascii_space_def)
  moreover have "fst (httpTargeter_Next ?e
          (NewHTTPTargeter (NewScanner (?pre @ [[CHR ''G'', CHR 0x09, CHR ''/'']]) False) [] None)
          (Some zeroTarget)) = Some (BadTarget [CHR ''G'', CHR 0x09, CHR ''/''])"
    using t2 by (intro th) (simp_all add: skippable_def ascii_space_def)
  moreover have "fst (httpTargeter_Next ?e
          (NewHTTPTargeter (NewScanner (?pre @ [''get http://x/y'']) False) [] None)
          (Some zeroTarget)) = Some (BadMethod ''get'')"
    using t3
    by (intro th)
      (simp_all add: skippable_def ascii_space_def startsWithHTTPMethod_def upper_ascii_def
        before_space_def)
  moreover have "fst (httpTargeter_Next ?e
          (NewHTTPTargeter (NewScanner (?pre @ [''GET notaurl'']) False) [] None)
          (Some zeroTarget)) = Some (BadURL ''notaurl'')"
    using t4
    by (intro th)
      (simp_all add: skippable_def ascii_space_def startsWithHTTPMethod_def upper_ascii_def
        re_space_def after_space_def)
  ultimately show ?thesis by simp
qed

text \<open>
  C4 as the claim words it fails on a line whose two tokens are separated by a tab: the
  line \<open>get<TAB>http://x/y\<close> has two white-space separated tokens and does not start
  with upper-case letters, but \<^verbatim>\<open>Next\<close> reports a bad target, not a bad method.
\<close>

theorem http_tab_separated_line_is_bad_target:
  "length (ws_tokens (''get'' @ [CHR 0x09] @ ''http://x/y'')) = 2 \<and>
   \<not> startsWithHTTPMethod (''get'' @ [CHR 0x09] @ ''http://x/y'') \<and>
   fst (httpTargeter_Next \<lparr>ParseRequestURI = (\<lambda>u. True), ReadFile = (\<lambda>p. ([], None))\<rparr>
      (NewHTTPTargeter (NewScanner [''get'' @ [CHR 0x09] @ ''http://x/y''] False) [] None)
      (Some zeroTarget))
     = Some (BadTarget (''get'' @ [CHR 0x09] @ ''http://x/y'')) \<and>
   (\<forall>m. fst (httpTargeter_Next \<lparr>ParseRequestURI = (\<lambda>u. True), ReadFile = (\<lambda>p. ([], None))\<rparr>
      (NewHTTPTargeter (NewScanner [''get'' @ [CHR 0x09] @ ''http://x/y''] False) [] None)
      (Some zeroTarget))
     \<noteq> Some (BadMethod m))"
proof -
  let ?l = "''get'' @ [CHR 0x09] @ ''http://x/y''"
  let ?e = "\<lparr>ParseRequestURI = (\<lambda>u. True), ReadFile = (\<lambda>p. ([], None))\<rparr>"
  have t: "TrimSpace ?l = ?l" by (simp add: trim_eval)
  have "\<not> skippable ?l" using t by (simp add: skippable_def)
  moreover have "CHR '' '' \<notin> set (TrimSpace ?l)" using t by simp
  ultimately have "fst (httpTargeter_Next ?e
      (NewHTTPTargeter (NewScanner [?l] False) [] None) (Some zeroTarget))
        = Some (BadTarget (TrimSpace ?l))"
    by (intro Next_first_line(1) [where pre = "[]" and rest = "[]"]) simp_all
  moreover have "length (ws_tokens ?l) = 2" by (simp add: ascii_space_def)
  moreover have "\<not> startsWithHTTPMethod ?l"
    by (simp add: startsWithHTTPMethod_def upper_ascii_def)
  ultimately show ?thesis using t by simp
qed

section \<open>The HTTP-text decoder: the target after a failed call\<close>

text \<open>
  C10. \<^verbatim>\<open>Next\<close> writes to the caller's target before it has validated the block: on a
  block whose first line is \<open>GET notaurl\<close> (the token \<open>notaurl\<close> being no request URI)
  the call returns the bad-URL error, and the target it leaves behind has its body
  replaced by the provider's default, its header by a fresh mapping holding the provider's
  defaults, and its method by \<open>GET\<close>; only the URL and the name are those of the caller.
\<close>

theorem http_next_error_overwrites_target:
  assumes "\<not> ParseRequestURI e ''notaurl''"
  shows "fst (httpTargeter_Next e (NewHTTPTargeter (NewScanner (''GET notaurl'' # ls) br) b d)
                (Some t))
           = Some (BadURL ''notaurl'') \<and>
         fst (snd (httpTargeter_Next e (NewHTTPTargeter (NewScanner (''GET notaurl'' # ls) br) b d)
                (Some t)))
           = Some (t\<lparr>Method := ''GET'', Body := b,
                      Header := Some (case d of None \<Rightarrow> Map.empty | Some m \<Rightarrow> m)\<rparr>)"
proof -
  let ?h = "NewHTTPTargeter (NewScanner (''GET notaurl'' # ls) br) b d"
  have t: "TrimSpace ''GET notaurl'' = ''GET notaurl''" by (simp add: trim_eval)
  then have "\<not> skippable ''GET notaurl''" by (simp add: skippable_def)
  moreover have "upcoming (sc ?h) = [] @ ''GET notaurl'' # ls" by simp
  ultimately obtain s1 where "next_line (sc ?h) = (Some (TrimSpace ''GET notaurl''), s1)"
    using next_line_skips [of "sc ?h" "[]" "''GET notaurl''" ls] by auto
  with t have s1: "next_line (sc ?h) = (Some ''GET notaurl'', s1)" by simp
  have m: "startsWithHTTPMethod ''GET notaurl''"
    by (simp add: startsWithHTTPMethod_def upper_ascii_def re_space_def)
  have sp: "SplitN2 ''GET notaurl'' (CHR '' '') = [''GET'', ''notaurl'']"
    by (simp add: SplitN2_def)
  show ?thesis
    using assms s1 by (simp add: httpTargeter_Next_def sp m Let_def)
qed

text \<open>
  The theorem at a target that held a request of its own: the error is returned and the
  target differs from the one passed in.
\<close>

theorem http_next_error_overwrites_target_witness:
  "fst (httpTargeter_Next
          \<lparr>ParseRequestURI = (\<lambda>u. take 1 u = ''/'' \<or> take 7 u = ''http://''),
           ReadFile = (\<lambda>p. ([], Some ''no such file''))\<rparr>
          (NewHTTPTargeter (NewScanner [''GET notaurl''] False) ''default'' None)
          (Some \<lparr>Method = ''PUT'', URL = ''http://old/'', Body = ''old'',
                  Header = Some [''X'' \<mapsto> [''1'']], Name = ''n''\<rparr>))
     = Some (BadURL ''notaurl'') \<and>
   fst (snd (httpTargeter_Next
          \<lparr>ParseRequestURI = (\<lambda>u. take 1 u = ''/'' \<or> take 7 u = ''http://''),
           ReadFile = (\<lambda>p. ([], Some ''no such file''))\<rparr>
          (NewHTTPTargeter (NewScanner [''GET notaurl''] False) ''default'' None)
          (Some \<lparr>Method = ''PUT'', URL = ''http://old/'', Body = ''old'',
                  Header = Some [''X'' \<mapsto> [''1'']], Name = ''n''\<rparr>)))
     = Some \<lparr>Method = ''GET'', URL = ''http://old/'', Body = ''default'',
              Header = Some Map.empty, Name = ''n''\<rparr>"
  using http_next_error_overwrites_target
    [of "\<lparr>ParseRequestURI = (\<lambda>u. take 1 u = ''/'' \<or> take 7 u = ''http://''),
          ReadFile = (\<lambda>p. ([], Some ''no such file''))\<rparr>"
        "[]" False "''default''" None
        "\<lparr>Method = ''PUT'', URL = ''http://old/'', Body = ''old'',
          Header = Some [''X'' \<mapsto> [''1'']], Name = ''n''\<rparr>"]
  by simp

section \<open>The HTTP-text decoder: the header and body section\<close>

lemma header_lines_Cons:
  assumes "upcoming s = x # xs"
  shows "header_lines e b m s =
     (let line = TrimSpace x; s2 = snd (Text (snd (Scan s))) in
        if line = [] then (None, b, m, s2)
        else if hd line = CHR ''@'' then
          (let f = ReadFile e (tl line) in
           case snd f of
             Some msg \<Rightarrow> (Some (BadBody msg), fst f, m, s2)
           | None \<Rightarrow> (None, fst f, m, s2))
        else
          let tokens = SplitN2 line (CHR '':'') in
          if length tokens < 2 then (Some (BadHeader line), b, m, s2)
          else
            let k = TrimSpace (tokens ! 0); v = TrimSpace (tokens ! 1) in
            if k = [] \<or> v = [] then (Some (BadHeader line), b, m, s2)
            else header_lines e b (m(k \<mapsto> (case m k of None \<Rightarrow> [] | Some vs \<Rightarrow> vs) @ [v])) s2)"
  using Scan_Text_upcoming(1,2) [OF assms]
  by (subst header_lines.simps [of e b m s]) (simp add: Let_def)

lemma header_lines_Nil:
  assumes "upcoming s = []"
  shows "header_lines e b m s = (None, b, m, snd (Scan s))"
  using Scan_upcoming_Nil [OF assms]
  by (subst header_lines.simps [of e b m s]) (simp add: Let_def)

lemma comment_not_method:
  assumes "hd c = CHR ''#''"
  shows "\<not> startsWithHTTPMethod c"
proof (cases c)
  case Nil
  then show ?thesis by (simp add: startsWithHTTPMethod_def)
next
  case (Cons a as)
  with assms have "\<not> upper_ascii a" by (simp add: upper_ascii_def)
  with Cons show ?thesis by (simp add: startsWithHTTPMethod_def)
qed

lemma Next_request_line:
  assumes "upcoming (sc h) = pre @ l # rest"
    and "\<forall>x \<in> set pre. skippable x"
    and "request_line e l"
  shows "\<exists>s1. upcoming s1 = rest \<and> peeked s1 = [] \<and> broken (src s1) = broken (src (sc h)) \<and>
           stopped (src s1) = stopped (src (sc h)) \<and>
           httpTargeter_Next e h (Some t) =
           (let t3 = t\<lparr>Body := body h,
                      Header := Some (case hdr h of None \<Rightarrow> Map.empty | Some d \<Rightarrow> d),
                      Method := before_space (TrimSpace l), URL := after_space (TrimSpace l)\<rparr>;
                p = Peek s1; line2 = TrimSpace (fst p); s2 = snd p
            in
            if line2 = [] \<or> startsWithHTTPMethod line2 then (None, Some t3, h\<lparr>sc := s2\<rparr>)
            else
              (case header_lines e (body h) (case hdr h of None \<Rightarrow> Map.empty | Some d \<Rightarrow> d) s2 of
                 (Some err, b, m, s3) \<Rightarrow>
                   (Some err, Some (t3\<lparr>Body := b, Header := Some m\<rparr>), h\<lparr>sc := s3\<rparr>)
               | (None, b, m, s3) \<Rightarrow>
                   if Err s3 \<noteq> None then
                     (Some ErrNoTargets, Some (t3\<lparr>Body := b, Header := Some m\<rparr>), h\<lparr>sc := s3\<rparr>)
                   else (None, Some (t3\<lparr>Body := b, Header := Some m\<rparr>), h\<lparr>sc := s3\<rparr>)))"
proof -
  from assms(3) have ns: "\<not> skippable l" by (simp add: request_line_def)
  from next_line_skips [OF assms(1,2) ns] obtain s1 where
    nl: "next_line (sc h) = (Some (TrimSpace l), s1)" and
    s1: "upcoming s1 = rest" "peeked s1 = []" "broken (src s1) = broken (src (sc h))"
      "stopped (src s1) = stopped (src (sc h))"
    by blast
  have "httpTargeter_Next e h (Some t) =
           (let t3 = t\<lparr>Body := body h,
                      Header := Some (case hdr h of None \<Rightarrow> Map.empty | Some d \<Rightarrow> d),
                      Method := before_space (TrimSpace l), URL := after_space (TrimSpace l)\<rparr>;
                p = Peek s1; line2 = TrimSpace (fst p); s2 = snd p
            in
            if line2 = [] \<or> startsWithHTTPMethod line2 then (None, Some t3, h\<lparr>sc := s2\<rparr>)
            else
              (case header_lines e (body h) (case hdr h of None \<Rightarrow> Map.empty | Some d \<Rightarrow> d) s2 of
                 (Some err, b, m, s3) \<Rightarrow>
                   (Some err, Some (t3\<lparr>Body := b, Header := Some m\<rparr>), h\<lparr>sc := s3\<rparr>)
               | (None, b, m, s3) \<Rightarrow>
                   if Err s3 \<noteq> None then
                     (Some ErrNoTargets, Some (t3\<lparr>Body := b, Header := Some m\<rparr>), h\<lparr>sc := s3\<rparr>)
                   else (None, Some (t3\<lparr>Body := b, Header := Some m\<rparr>), h\<lparr>sc := s3\<rparr>)))"
    using assms(3)
    by (simp add: httpTargeter_Next_def nl request_line_def SplitN2_def Let_def before_space_def
        after_space_def)
  with s1 show ?thesis by blast
qed

text \<open>
  C2. A comment line is skipped while \<^verbatim>\<open>Next\<close> looks for the method/URL line
  (\<open>next_line_skips\<close>), but the loop over the header and body section has no such case: a
  comment line that follows an accepted method/URL line is read as a header line, and
  when it holds no colon the call fails with the bad-header error.
\<close>

theorem http_comment_in_header_section_is_bad_header:
  assumes "upcoming (sc h) = pre @ l # c # rest"
    and "\<forall>x \<in> set pre. skippable x"
    and "request_line e l"
    and "TrimSpace c \<noteq> []" and "hd (TrimSpace c) = CHR ''#''"
    and "CHR '':'' \<notin> set (TrimSpace c)"
  shows "fst (httpTargeter_Next e h (Some t)) = Some (BadHeader (TrimSpace c))"
proof -
  from Next_request_line [OF assms(1,2,3), of t] obtain s1 where
    s1: "upcoming s1 = c # rest" "peeked s1 = []" and
    nx: "httpTargeter_Next e h (Some t) =
           (let t3 = t\<lparr>Body := body h,
                      Header := Some (case hdr h of None \<Rightarrow> Map.empty | Some d \<Rightarrow> d),
                      Method := before_space (TrimSpace l), URL := after_space (TrimSpace l)\<rparr>;
                p = Peek s1; line2 = TrimSpace (fst p); s2 = snd p
            in
            if line2 = [] \<or> startsWithHTTPMethod line2 then (None, Some t3, h\<lparr>sc := s2\<rparr>)
            else
              (case header_lines e (body h) (case hdr h of None \<Rightarrow> Map.empty | Some d \<Rightarrow> d) s2 of
                 (Some err, b, m, s3) \<Rightarrow>
                   (Some err, Some (t3\<lparr>Body := b, Header := Some m\<rparr>), h\<lparr>sc := s3\<rparr>)
               | (None, b, m, s3) \<Rightarrow>
                   if Err s3 \<noteq> None then
                     (Some ErrNoTargets, Some (t3\<lparr>Body := b, Header := Some m\<rparr>), h\<lparr>sc := s3\<rparr>)
                   else (None, Some (t3\<lparr>Body := b, Header := Some m\<rparr>), h\<lparr>sc := s3\<rparr>)))"
    by blast
  from assms(4) have c: "c \<noteq> []" by auto
  have p1: "fst (Peek s1) = c" using Peek_upcoming(1) [OF s1(2,1)] .
  have p2: "upcoming (snd (Peek s1)) = c # rest" using Peek_upcoming(2) [OF s1(2,1) c] .
  have nm: "\<not> startsWithHTTPMethod (TrimSpace c)" using assms(5) by (rule comment_not_method)
  have at: "hd (TrimSpace c) \<noteq> CHR ''@''" using assms(5) by simp
  let ?hl = "header_lines e (body h) (case hdr h of None \<Rightarrow> Map.empty | Some d \<Rightarrow> d)
               (snd (Peek s1))"
  have "fst ?hl = Some (BadHeader (TrimSpace c))"
    using assms(4,6) at
    by (simp add: header_lines_Cons [OF p2] Let_def SplitN2_def)
  then obtain b' m' s3 where "?hl = (Some (BadHeader (TrimSpace c)), b', m', s3)"
    by (cases ?hl) simp
  then show ?thesis
    using assms(4) nm by (simp add: nx Let_def p1)
qed

text \<open>The theorem on a block with a comment between its method/URL line and its header.\<close>

theorem http_comment_in_header_section_is_bad_header_witness:
  "fst (httpTargeter_Next
          \<lparr>ParseRequestURI = (\<lambda>u. take 1 u = ''/'' \<or> take 7 u = ''http://''),
           ReadFile = (\<lambda>p. ([], Some ''no such file''))\<rparr>
          (NewHTTPTargeter
             (NewScanner [''# first'', ''GET http://x/y'', ''# note'', ''A: b''] False) [] None)
          (Some zeroTarget))
     = Some (BadHeader ''# note'')"
proof -
  let ?e = "\<lparr>ParseRequestURI = (\<lambda>u. take 1 u = ''/'' \<or> take 7 u = ''http://''),
             ReadFile = (\<lambda>p. ([], Some ''no such file''))\<rparr>"
  let ?h = "NewHTTPTargeter
             (NewScanner [''# first'', ''GET http://x/y'', ''# note'', ''A: b''] False) [] None"
  have t0: "TrimSpace ''# first'' = ''# first''" by (simp add: trim_eval)
  have t1: "TrimSpace ''GET http://x/y'' = ''GET http://x/y''" by (simp add: trim_eval)
  have t2: "TrimSpace ''# note'' = ''# note''" by (simp add: trim_eval)
  have u: "upcoming (sc ?h) = [''# first''] @ ''GET http://x/y'' # ''# note'' # [''A: b'']"
    by simp
  have pre: "\<forall>x \<in> set [''# first'']. skippable x" using t0 by (simp add: skippable_def)
  have rl: "request_line ?e ''GET http://x/y''"
    using t1
    by (simp add: request_line_def skippable_def startsWithHTTPMethod_def upper_ascii_def
        re_space_def after_space_def)
  have "fst (httpTargeter_Next ?e ?h (Some zeroTarget)) = Some (BadHeader (TrimSpace ''# note''))"
    using t2 by (intro http_comment_in_header_section_is_bad_header [OF u pre rl]) simp_all
  with t2 show ?thesis by simp
qed

lemma Scan_broken: "broken (src (snd (Scan s))) = broken (src s)"
  by (simp add: Scan_def src_Scan_def split: list.splits)

lemma Err_not_broken: "\<not> broken (src s) \<Longrightarrow> Err s = None"
  by (simp add: Err_def src_Err_def)

text \<open>
  A comment line that holds a colon is not rejected either: it becomes a header of the
  target, the text before the colon being its name.
\<close>

lemma http_comment_with_colon_becomes_header:
  assumes "ParseRequestURI e ''http://x/y''"
  shows "fst (httpTargeter_Next e
            (NewHTTPTargeter (NewScanner [''GET http://x/y'', ''# k: v''] False) [] None)
            (Some zeroTarget)) = None \<and>
         fst (snd (httpTargeter_Next e
            (NewHTTPTargeter (NewScanner [''GET http://x/y'', ''# k: v''] False) [] None)
            (Some zeroTarget))) =
           Some \<lparr>Method = ''GET'', URL = ''http://x/y'', Body = [],
                  Header = Some [''# k'' \<mapsto> [''v'']], Name = []\<rparr>"
proof -
  let ?h = "NewHTTPTargeter (NewScanner [''GET http://x/y'', ''# k: v''] False) [] None"
  have t1: "TrimSpace ''GET http://x/y'' = ''GET http://x/y''" by (simp add: trim_eval)
  have t2: "TrimSpace ''# k: v'' = ''# k: v''" by (simp add: trim_eval)
  have t3: "TrimSpace ''# k'' = ''# k''" by (simp add: trim_eval)
  have t4: "TrimSpace '' v'' = ''v''"
    by (simp add: TrimSpace_def trimLeft_Cons_space ascii_space_def trimLeft_id trimRight_id
        leading_space_def trailing_space_def space_runes_def suffix_def)
  have rl: "request_line e ''GET http://x/y''"
    using t1 assms
    by (simp add: request_line_def skippable_def startsWithHTTPMethod_def upper_ascii_def
        re_space_def after_space_def)
  have u: "upcoming (sc ?h) = [] @ ''GET http://x/y'' # [''# k: v'']" by simp
  from Next_request_line [OF u _ rl, of zeroTarget] obtain s1 where
    s1: "upcoming s1 = [''# k: v'']" "peeked s1 = []" "broken (src s1) = broken (src (sc ?h))" and
    nx: "httpTargeter_Next e ?h (Some zeroTarget) =
           (let t3 = zeroTarget\<lparr>Body := body ?h,
                      Header := Some (case hdr ?h of None \<Rightarrow> Map.empty | Some d \<Rightarrow> d),
                      Method := before_space (TrimSpace ''GET http://x/y''),
                      URL := after_space (TrimSpace ''GET http://x/y'')\<rparr>;
                p = Peek s1; line2 = TrimSpace (fst p); s2 = snd p
            in
            if line2 = [] \<or> startsWithHTTPMethod line2 then (None, Some t3, ?h\<lparr>sc := s2\<rparr>)
            else
              (case header_lines e (body ?h) (case hdr ?h of None \<Rightarrow> Map.empty | Some d \<Rightarrow> d) s2 of
                 (Some err, b, m, s3) \<Rightarrow>
                   (Some err, Some (t3\<lparr>Body := b, Header := Some m\<rparr>), ?h\<lparr>sc := s3\<rparr>)
               | (None, b, m, s3) \<Rightarrow>
                   if Err s3 \<noteq> None then
                     (Some ErrNoTargets, Some (t3\<lparr>Body := b, Header := Some m\<rparr>), ?h\<lparr>sc := s3\<rparr>)
                   else (None, Some (t3\<lparr>Body := b, Header := Some m\<rparr>), ?h\<lparr>sc := s3\<rparr>)))"
    by auto
  let ?s2 = "snd (Peek s1)"
  have p1: "fst (Peek s1) = ''# k: v''" using Peek_upcoming(1) [OF s1(2,1)] .
  have p2: "upcoming ?s2 = [''# k: v'']" using Peek_upcoming(2) [OF s1(2,1)] by simp
  have p3: "broken (src ?s2) = False"
    using Peek_upcoming(4) [OF s1(2,1)] s1(3) by (simp add: NewScanner_def)
  let ?s3 = "snd (Text (snd (Scan ?s2)))"
  have q1: "upcoming ?s3 = []" using Scan_Text_upcoming(3) [OF p2] .
  have q2: "broken (src ?s3) = False" using Scan_Text_upcoming(5) [OF p2] p3 by simp
  have sp: "SplitN2 ''# k: v'' (CHR '':'') = [''# k'', '' v'']" by (simp add: SplitN2_def)
  have hl: "header_lines e [] Map.empty ?s2 = (None, [], [''# k'' \<mapsto> [''v'']], snd (Scan ?s3))"
    by (simp add: header_lines_Cons [OF p2] Let_def t2 sp t3 t4 header_lines_Nil [OF q1])
  have er: "Err (snd (Scan ?s3)) = None"
    using q2 by (intro Err_not_broken) (simp add: Scan_broken)
  have nm: "\<not> startsWithHTTPMethod ''# k: v''"
    by (simp add: startsWithHTTPMethod_def upper_ascii_def)
  show ?thesis
    unfolding nx
    by (simp add: Let_def p1 t2 nm hl er t1 before_space_def after_space_def zeroTarget_def)
qed

section \<open>The static round-robin decoder\<close>

lemma wrap64_id: "- (2 ^ 63) \<le> x \<Longrightarrow> x < 2 ^ 63 \<Longrightarrow> wrap64 x = x"
  by (simp add: wrap64_def)

lemma smod_nonneg: "0 \<le> a \<Longrightarrow> 0 < b \<Longrightarrow> a smod b = a mod (b :: int)"
  by (cases "a = 0") (simp_all add: smod_int_alt_def sgn_if abs_if)

lemma static_step:
  assumes "tgts s \<noteq> []" and "- 1 \<le> i s" and "i s < 2 ^ 63 - 1"
  shows "staticTargeter_Next s (Some t) =
           Inr (None, Some (tgts s ! (nat (i s + 1) mod length (tgts s))), s\<lparr>i := i s + 1\<rparr>)"
proof -
  let ?L = "int (length (tgts s))"
  from assms(1) have L: "0 < ?L" by simp
  have n: "AddInt64 (i s) 1 = i s + 1"
    using assms(2,3) by (simp add: AddInt64_def wrap64_id)
  have k: "(i s + 1) smod ?L = (i s + 1) mod ?L"
    using assms(2) L by (intro smod_nonneg) simp_all
  have k0: "0 \<le> (i s + 1) mod ?L" and k1: "(i s + 1) mod ?L < ?L"
    using L by simp_all
  have "nat ((i s + 1) mod ?L) = nat (i s + 1) mod length (tgts s)"
    using assms(2) by (simp add: nat_mod_distrib)
  moreover have "\<not> ((i s + 1) mod ?L < 0 \<or> ?L \<le> (i s + 1) mod ?L)"
    using k0 k1 by linarith
  ultimately show ?thesis
    using n k assms(1) by (simp add: staticTargeter_Next_def Let_def)
qed

lemma static_calls_run:
  assumes "ts \<noteq> []"
  shows "- 1 \<le> j \<Longrightarrow> j + int n < 2 ^ 63 \<Longrightarrow>
     static_calls n \<lparr>tgts = ts, i = j\<rparr> out =
       map (\<lambda>k. Inr (None, Some (ts ! ((nat (j + 1) + k) mod length ts)))) [0..<n]"
proof (induction n arbitrary: j)
  case 0
  then show ?case by simp
next
  case (Suc n)
  have st: "staticTargeter_Next \<lparr>tgts = ts, i = j\<rparr> (Some out) =
      Inr (None, Some (ts ! (nat (j + 1) mod length ts)), \<lparr>tgts = ts, i = j + 1\<rparr>)"
    using static_step [of "\<lparr>tgts = ts, i = j\<rparr>" out] assms Suc.prems by simp
  have ih: "static_calls n \<lparr>tgts = ts, i = j + 1\<rparr> out =
       map (\<lambda>k. Inr (None, Some (ts ! ((nat (j + 1 + 1) + k) mod length ts)))) [0..<n]"
    using Suc.prems by (intro Suc.IH) simp_all
  have sh: "nat (j + 1 + 1) + k = nat (j + 1) + Suc k" for k
    using Suc.prems(1) by simp
  have "map (\<lambda>k. Inr (None, Some (ts ! ((nat (j + 1) + k) mod length ts)))) [0..<Suc n] =
        Inr (None, Some (ts ! (nat (j + 1) mod length ts))) #
        map (\<lambda>k. Inr (None, Some (ts ! ((nat (j + 1) + Suc k) mod length ts)))) [0..<n]"
    by (simp add: map_upt_Suc del: upt_Suc)
  also have "\<dots> = Inr (None, Some (ts ! (nat (j + 1) mod length ts))) #
        map (\<lambda>k. Inr (None, Some (ts ! ((nat (j + 1 + 1) + k) mod length ts)))) [0..<n]"
    by (simp only: sh)
  finally have m:
    "map (\<lambda>k. Inr (None, Some (ts ! ((nat (j + 1) + k) mod length ts)))) [0..<Suc n] =
      Inr (None, Some (ts ! (nat (j + 1) mod length ts))) #
      static_calls n \<lparr>tgts = ts, i = j + 1\<rparr> out"
    by (simp only: ih)
  have "static_calls (Suc n) \<lparr>tgts = ts, i = j\<rparr> out =
      Inr (None, Some (ts ! (nat (j + 1) mod length ts))) #
      static_calls n \<lparr>tgts = ts, i = j + 1\<rparr> out"
    by (simp add: st)
  with m show ?case by simp
qed

text \<open>
  C5. Over a non-empty list of \<open>L\<close> targets (a Go slice holds fewer than \<open>2 ^ 63\<close>
  elements), the first \<open>L + 1\<close> calls of a fresh decoder all return normally: the first
  \<open>L\<close> hand out the list in its order, the next one its first element again.
\<close>

theorem static_round_robin_first_cycle:
  assumes "ts \<noteq> []" and "length ts < 2 ^ 63"
  shows "static_calls (length ts + 1) (NewStaticTargeter ts) out =
           map (\<lambda>t. Inr (None, Some t)) ts @ [Inr (None, Some (hd ts))]"
proof -
  have "int (length ts) < 2 ^ 63"
    using assms(2) by (simp add: nat_less_numeral_power_cancel_iff flip: of_nat_less_iff)
  then have "static_calls (length ts + 1) \<lparr>tgts = ts, i = - 1\<rparr> out =
       map (\<lambda>k. Inr (None, Some (ts ! ((nat (- 1 + 1) + k) mod length ts)))) [0..<length ts + 1]"
    using assms(1) by (intro static_calls_run) simp_all
  also have "\<dots> = map (\<lambda>k. Inr (None, Some (ts ! (k mod length ts)))) [0..<length ts] @
      [Inr (None, Some (ts ! 0))]"
    by simp
  also have "map (\<lambda>k. Inr (None, Some (ts ! (k mod length ts)))) [0..<length ts] =
      map (\<lambda>k. Inr (None, Some (ts ! k))) [0..<length ts]"
    by simp
  also have "\<dots> = map (\<lambda>t. Inr (None, Some t)) (map (\<lambda>k. ts ! k) [0..<length ts])"
    by (simp add: comp_def)
  also have "map (\<lambda>k. ts ! k) [0..<length ts] = ts" by (rule map_nth)
  finally show ?thesis using assms(1) by (simp add: NewStaticTargeter_def hd_conv_nth)
qed

text \<open>The theorem on a list of three targets: four calls return a, b, c and a again.\<close>

theorem static_round_robin_first_cycle_witness:
  "static_calls 4
     (NewStaticTargeter [zeroTarget\<lparr>URL := ''a''\<rparr>, zeroTarget\<lparr>URL := ''b''\<rparr>,
        zeroTarget\<lparr>URL := ''c''\<rparr>])
     zeroTarget =
   [Inr (None, Some (zeroTarget\<lparr>URL := ''a''\<rparr>)), Inr (None, Some (zeroTarget\<lparr>URL := ''b''\<rparr>)),
    Inr (None, Some (zeroTarget\<lparr>URL := ''c''\<rparr>)), Inr (None, Some (zeroTarget\<lparr>URL := ''a''\<rparr>))]"
proof -
  let ?ts = "[zeroTarget\<lparr>URL := ''a''\<rparr>, zeroTarget\<lparr>URL := ''b''\<rparr>, zeroTarget\<lparr>URL := ''c''\<rparr>]"
  have len: "length ?ts + 1 = 4" by simp
  have "static_calls (length ?ts + 1) (NewStaticTargeter ?ts) zeroTarget =
      map (\<lambda>t. Inr (None, Some t)) ?ts @ [Inr (None, Some (hd ?ts))]"
    by (rule static_round_robin_first_cycle) simp_all
  then have "static_calls 4 (NewStaticTargeter ?ts) zeroTarget =
      map (\<lambda>t. Inr (None, Some t)) ?ts @ [Inr (None, Some (hd ?ts))]"
    by (simp only: len)
  also have "\<dots> = [Inr (None, Some (zeroTarget\<lparr>URL := ''a''\<rparr>)),
      Inr (None, Some (zeroTarget\<lparr>URL := ''b''\<rparr>)),
      Inr (None, Some (zeroTarget\<lparr>URL := ''c''\<rparr>)), Inr (None, Some (zeroTarget\<lparr>URL := ''a''\<rparr>))]"
    by simp
  finally show ?thesis .
qed

text \<open>
  C6, as the code has it. No call of the static decoder returns \<open>ErrNoTargets\<close>. Over a
  non-empty list, and as long as the counter has not reached the largest \<^verbatim>\<open>int64\<close>, a
  call with a target returns normally with the element at the position of the incremented
  counter modulo the length; so the first \<open>2 ^ 63\<close> calls of a fresh decoder all succeed.
  Over an empty list the call does not return: the remainder by the length panics.
\<close>

theorem static_next_never_exhausted:
  "(\<forall>x y. staticTargeter_Next s tgt \<noteq> Inr (Some ErrNoTargets, x, y)) \<and>
   (tgts s \<noteq> [] \<and> - 1 \<le> i s \<and> i s < 2 ^ 63 - 1 \<longrightarrow>
      staticTargeter_Next s (Some t) =
        Inr (None, Some (tgts s ! (nat (i s + 1) mod length (tgts s))), s\<lparr>i := i s + 1\<rparr>) \<and>
      tgts s ! (nat (i s + 1) mod length (tgts s)) \<in> set (tgts s)) \<and>
   (ts \<noteq> [] \<and> int n \<le> 2 ^ 63 \<longrightarrow>
      static_calls n (NewStaticTargeter ts) out =
        map (\<lambda>k. Inr (None, Some (ts ! (k mod length ts)))) [0..<n]) \<and>
   (tgts s = [] \<longrightarrow> staticTargeter_Next s (Some t) = Inl DivideByZero)"
proof (intro conjI impI allI)
  fix x y
  show "staticTargeter_Next s tgt \<noteq> Inr (Some ErrNoTargets, x, y)"
    by (simp add: staticTargeter_Next_def Let_def split: option.splits)
next
  assume a: "tgts s \<noteq> [] \<and> - 1 \<le> i s \<and> i s < 2 ^ 63 - 1"
  then show "staticTargeter_Next s (Some t) =
        Inr (None, Some (tgts s ! (nat (i s + 1) mod length (tgts s))), s\<lparr>i := i s + 1\<rparr>)"
    by (intro static_step) simp_all
  from a show "tgts s ! (nat (i s + 1) mod length (tgts s)) \<in> set (tgts s)"
    by simp
next
  assume "ts \<noteq> [] \<and> int n \<le> 2 ^ 63"
  then have "static_calls n \<lparr>tgts = ts, i = - 1\<rparr> out =
       map (\<lambda>k. Inr (None, Some (ts ! ((nat (- 1 + 1) + k) mod length ts)))) [0..<n]"
    by (intro static_calls_run) simp_all
  then show "static_calls n (NewStaticTargeter ts) out =
        map (\<lambda>k. Inr (None, Some (ts ! (k mod length ts)))) [0..<n]"
    by (simp add: NewStaticTargeter_def)
next
  assume "tgts s = []"
  then show "staticTargeter_Next s (Some t) = Inl DivideByZero"
    by (simp add: staticTargeter_Next_def)
qed

text \<open>The theorem on a list of two targets whose counter stands at 4, and on an empty list.\<close>

theorem static_next_never_exhausted_witness:
  "staticTargeter_Next
      \<lparr>tgts = [zeroTarget\<lparr>URL := ''a''\<rparr>, zeroTarget\<lparr>URL := ''b''\<rparr>], i = 4\<rparr> (Some zeroTarget) =
     Inr (None, Some (zeroTarget\<lparr>URL := ''b''\<rparr>),
          \<lparr>tgts = [zeroTarget\<lparr>URL := ''a''\<rparr>, zeroTarget\<lparr>URL := ''b''\<rparr>], i = 5\<rparr>) \<and>
   static_calls 3 (NewStaticTargeter [zeroTarget\<lparr>URL := ''a''\<rparr>, zeroTarget\<lparr>URL := ''b''\<rparr>])
      zeroTarget =
     [Inr (None, Some (zeroTarget\<lparr>URL := ''a''\<rparr>)), Inr (None, Some (zeroTarget\<lparr>URL := ''b''\<rparr>)),
      Inr (None, Some (zeroTarget\<lparr>URL := ''a''\<rparr>))] \<and>
   staticTargeter_Next \<lparr>tgts = [], i = 4\<rparr> (Some zeroTarget) = Inl DivideByZero"
proof -
  let ?ts = "[zeroTarget\<lparr>URL := ''a''\<rparr>, zeroTarget\<lparr>URL := ''b''\<rparr>]"
  let ?s = "\<lparr>tgts = ?ts, i = 4\<rparr>"
  let ?z = "\<lparr>tgts = [], i = 4\<rparr> :: staticTargeter"
  note th = static_next_never_exhausted [of ?s "Some zeroTarget" zeroTarget ?ts 3 zeroTarget]
  note th0 = static_next_never_exhausted [of ?z "Some zeroTarget" zeroTarget ?ts 3 zeroTarget]
  have p: "tgts ?s \<noteq> [] \<and> - 1 \<le> i ?s \<and> i ?s < 2 ^ 63 - 1" by simp
  have q: "?ts \<noteq> [] \<and> int 3 \<le> 2 ^ 63" by simp
  have r: "tgts ?z = []" by simp
  from th p have "staticTargeter_Next ?s (Some zeroTarget) =
      Inr (None, Some (tgts ?s ! (nat (i ?s + 1) mod length (tgts ?s))), ?s\<lparr>i := i ?s + 1\<rparr>)"
    by blast
  also have "nat (i ?s + 1) mod length (tgts ?s) = 1"
    by (simp add: numeral_2_eq_2 [symmetric])
  finally have a: "staticTargeter_Next ?s (Some zeroTarget) =
      Inr (None, Some (zeroTarget\<lparr>URL := ''b''\<rparr>), \<lparr>tgts = ?ts, i = 5\<rparr>)"
    by simp
  from th q have "static_calls 3 (NewStaticTargeter ?ts) zeroTarget =
      map (\<lambda>k. Inr (None, Some (?ts ! (k mod length ?ts)))) [0..<3]"
    by blast
  also have "[0..<3] = [0, 1, 2 :: nat]" by (simp add: upt_conv_Cons)
  finally have b: "static_calls 3 (NewStaticTargeter ?ts) zeroTarget =
     [Inr (None, Some (zeroTarget\<lparr>URL := ''a''\<rparr>)), Inr (None, Some (zeroTarget\<lparr>URL := ''b''\<rparr>)),
      Inr (None, Some (zeroTarget\<lparr>URL := ''a''\<rparr>))]"
    by (simp add: numeral_2_eq_2 [symmetric] del: static_calls.simps)
  from th0 r have c: "staticTargeter_Next ?z (Some zeroTarget) = Inl DivideByZero"
    by blast
  from a b c show ?thesis by (simp del: static_calls.simps)
qed

text \<open>
  C6 as the claim words it, for a backing list of any length, fails on the empty list: the
  call does not return an element, it panics.
\<close>

theorem static_next_empty_list_panics:
  "staticTargeter_Next (NewStaticTargeter []) (Some zeroTarget) = Inl DivideByZero"
  by (simp add: staticTargeter_Next_def NewStaticTargeter_def)

section \<open>ReadAllTargets\<close>

lemma loop_produces:
  "produces nxt s ts = Some s' \<Longrightarrow>
   ReadAllTargets_loop nxt s acc = ReadAllTargets_loop nxt s' (acc @ ts)"
proof (induction ts arbitrary: s acc)
  case Nil
  then show ?case by simp
next
  case (Cons t ts)
  obtain err t' s1 where n: "nxt s zeroTarget = (err, t', s1)" by (cases "nxt s zeroTarget")
  with Cons.prems have e: "err = None" "t' = t" "produces nxt s1 ts = Some s'"
    by (auto split: option.splits if_splits)
  have "ReadAllTargets_loop nxt s acc = ReadAllTargets_loop nxt s1 (acc @ [t])"
    using n e by (subst ReadAllTargets_loop.simps) simp
  also have "\<dots> = ReadAllTargets_loop nxt s' ((acc @ [t]) @ ts)"
    using e(3) by (rule Cons.IH)
  finally show ?case by simp
qed

text \<open>
  C8. When the calls of \<^verbatim>\<open>Next\<close> produce the targets \<open>ts\<close> and the call after them
  reports \<open>ErrNoTargets\<close>, \<^verbatim>\<open>ReadAllTargets\<close> returns \<open>ts\<close> with no error if there is at
  least one target, and fails with \<open>ErrNoTargets\<close> if there is none; when the call after
  them fails with another error, it returns that error and no targets. In each case the
  function returns.
\<close>

theorem read_all_targets_result:
  "(produces nxt s ts = Some s' \<and> fst (nxt s' zeroTarget) = Some ErrNoTargets \<and> ts \<noteq> [] \<longrightarrow>
      ReadAllTargets nxt s = Some (ts, None)) \<and>
   (produces nxt s ts = Some s' \<and> fst (nxt s' zeroTarget) = Some e \<and> e \<noteq> ErrNoTargets \<longrightarrow>
      ReadAllTargets nxt s = Some ([], Some e)) \<and>
   (fst (nxt s zeroTarget) = Some ErrNoTargets \<longrightarrow>
      ReadAllTargets nxt s = Some ([], Some ErrNoTargets))"
proof (intro conjI impI)
  assume a: "produces nxt s ts = Some s' \<and> fst (nxt s' zeroTarget) = Some ErrNoTargets \<and> ts \<noteq> []"
  then have l: "ReadAllTargets_loop nxt s [] = ReadAllTargets_loop nxt s' ts"
    using loop_produces [of nxt s ts s' "[]"] by simp
  from a show "ReadAllTargets nxt s = Some (ts, None)"
    by (cases "nxt s' zeroTarget")
      (simp add: ReadAllTargets_def l ReadAllTargets_loop.simps [of nxt s'])
next
  assume a: "produces nxt s ts = Some s' \<and> fst (nxt s' zeroTarget) = Some e \<and> e \<noteq> ErrNoTargets"
  then have l: "ReadAllTargets_loop nxt s [] = ReadAllTargets_loop nxt s' ts"
    using loop_produces [of nxt s ts s' "[]"] by simp
  from a show "ReadAllTargets nxt s = Some ([], Some e)"
    by (cases "nxt s' zeroTarget")
      (simp add: ReadAllTargets_def l ReadAllTargets_loop.simps [of nxt s'])
next
  assume "fst (nxt s zeroTarget) = Some ErrNoTargets"
  then show "ReadAllTargets nxt s = Some ([], Some ErrNoTargets)"
    by (cases "nxt s zeroTarget")
      (simp add: ReadAllTargets_def ReadAllTargets_loop.simps [of nxt s])
qed

text \<open>
  The theorem on a targeter that hands out the targets of a list and fails on a target
  without a method: two targets and then exhaustion, a target and then a failure, and
  exhaustion at once.
\<close>

theorem read_all_targets_result_witness:
  "ReadAllTargets
     (\<lambda>s t. case s of
        [] \<Rightarrow> (Some ErrNoTargets, t, [])
      | x # xs \<Rightarrow> if Method x = [] then (Some (OtherError ''boom''), t, xs) else (None, x, xs))
     [zeroTarget\<lparr>Method := ''GET'', URL := ''/a''\<rparr>, zeroTarget\<lparr>Method := ''GET'', URL := ''/b''\<rparr>]
     = Some ([zeroTarget\<lparr>Method := ''GET'', URL := ''/a''\<rparr>,
              zeroTarget\<lparr>Method := ''GET'', URL := ''/b''\<rparr>], None) \<and>
   ReadAllTargets
     (\<lambda>s t. case s of
        [] \<Rightarrow> (Some ErrNoTargets, t, [])
      | x # xs \<Rightarrow> if Method x = [] then (Some (OtherError ''boom''), t, xs) else (None, x, xs))
     [zeroTarget\<lparr>Method := ''GET'', URL := ''/a''\<rparr>, zeroTarget]
     = Some ([], Some (OtherError ''boom'')) \<and>
   ReadAllTargets
     (\<lambda>s t. case s of
        [] \<Rightarrow> (Some ErrNoTargets, t, [])
      | x # xs \<Rightarrow> if Method x = [] then (Some (OtherError ''boom''), t, xs) else (None, x, xs))
     ([] :: Target list)
     = Some ([], Some ErrNoTargets)"
proof -
  let ?nxt = "\<lambda>s t. case s of
        [] \<Rightarrow> (Some ErrNoTargets, t, [])
      | x # xs \<Rightarrow> if Method x = [] then (Some (OtherError ''boom''), t, xs) else (None, x, xs)"
  let ?a = "zeroTarget\<lparr>Method := ''GET'', URL := ''/a''\<rparr>"
  let ?b = "zeroTarget\<lparr>Method := ''GET'', URL := ''/b''\<rparr>"
  have 1: "produces ?nxt [?a, ?b] [?a, ?b] = Some [] \<and> fst (?nxt [] zeroTarget) = Some ErrNoTargets \<and>
      [?a, ?b] \<noteq> []"
    by simp
  have 2: "produces ?nxt [?a, zeroTarget] [?a] = Some [zeroTarget] \<and>
      fst (?nxt [zeroTarget] zeroTarget) = Some (OtherError ''boom'') \<and>
      OtherError ''boom'' \<noteq> ErrNoTargets"
    by (simp add: zeroTarget_def)
  have 3: "fst (?nxt [] zeroTarget) = Some ErrNoTargets"
    by simp
  from 1 read_all_targets_result [of ?nxt "[?a, ?b]" "[?a, ?b]" "[]"]
  have "ReadAllTargets ?nxt [?a, ?b] = Some ([?a, ?b], None)" by blast
  moreover from 2
    read_all_targets_result [of ?nxt "[?a, zeroTarget]" "[?a]" "[zeroTarget]" "OtherError ''boom''"]
  have "ReadAllTargets ?nxt [?a, zeroTarget] = Some ([], Some (OtherError ''boom''))" by blast
  moreover from 3 read_all_targets_result [of ?nxt "[]" "[]" "[]"]
  have "ReadAllTargets ?nxt [] = Some ([], Some ErrNoTargets)" by blast
  ultimately show ?thesis by blast
qed

section \<open>The JSON decoder\<close>

lemma ReadBytes_line:
  assumes "LF \<notin> set l"
  shows "ReadBytes \<lparr>data = l @ LF # rest, fail = f\<rparr> LF = (l @ [LF], None, \<lparr>data = rest, fail = f\<rparr>)"
proof -
  from assms have a: "\<forall>x \<in> set l. x \<noteq> LF" by auto
  then have "takeWhile (\<lambda>c. c \<noteq> LF) (l @ LF # rest) = l"
    by (simp add: takeWhile_append2)
  moreover from a have "dropWhile (\<lambda>c. c \<noteq> LF) (l @ LF # rest) = LF # rest"
    by (simp add: dropWhile_append2)
  ultimately show ?thesis by (simp add: ReadBytes_def)
qed

lemma read_line_skips:
  assumes "\<forall>b \<in> set blanks. blank_line b"
    and "LF \<notin> set l" and "TrimSpace (l @ [LF]) \<noteq> []"
  shows "read_line \<lparr>data = concat (map (\<lambda>b. b @ [LF]) blanks) @ l @ LF # rest, fail = f\<rparr> =
           (Inr (TrimSpace (l @ [LF])), \<lparr>data = rest, fail = f\<rparr>)"
  using assms(1)
proof (induction blanks)
  case Nil
  show ?case
    using assms(3)
    by (subst read_line.simps) (simp add: ReadBytes_line [OF assms(2)] Let_def)
next
  case (Cons b blanks)
  then have b: "LF \<notin> set b" "TrimSpace (b @ [LF]) = []" by (simp_all add: blank_line_def)
  have "read_line
          \<lparr>data = b @ LF # (concat (map (\<lambda>b. b @ [LF]) blanks) @ l @ LF # rest), fail = f\<rparr> =
        read_line \<lparr>data = concat (map (\<lambda>b. b @ [LF]) blanks) @ l @ LF # rest, fail = f\<rparr>"
    by (subst read_line.simps) (simp add: ReadBytes_line [OF b(1)] Let_def b(2))
  with Cons show ?case by simp
qed




section \<open>The JSON decoder: the header of the decoded target\<close>


lemma hget_append_values:
  "hget (Some (append_values m s)) k = hget (Some m) k @ hget s k"
  by (simp add: hget_def append_values_def split: option.splits)

lemma hkeys_append_values:
  "hkeys (Some (append_values m s)) = hkeys (Some m) \<union> hkeys s"
  by (auto simp: hkeys_def append_values_def split: option.splits)

lemma json_next_success:
  assumes "read_line (jreader d) = (Inr line, r')"
    and "decode line = Inr t" and "Method t \<noteq> []" and "URL t \<noteq> []"
  shows "jsonTargeter_Next decode d (Some t0) =
     (None,
      Some (t0\<lparr>Method := Method t, URL := URL t,
                Body := (if length (Body t) > 0 then Body t else jbody d),
                Header := Some (append_values
                  (append_values (case Header t0 of None \<Rightarrow> Map.empty | Some m \<Rightarrow> m) (jheader d))
                  (Header t))\<rparr>),
      d\<lparr>jreader := r'\<rparr>)"
  using assms by (simp add: jsonTargeter_Next_def Let_def)

lemma json_next_success_only:
  assumes "fst (jsonTargeter_Next decode d (Some t0)) = None"
  shows "\<exists>line r' t. read_line (jreader d) = (Inr line, r') \<and> decode line = Inr t \<and>
           Method t \<noteq> [] \<and> URL t \<noteq> []"
  using assms
  by (auto simp: jsonTargeter_Next_def Let_def split: prod.splits sum.splits if_splits)

text \<open>
  C3, as the code has it. A call succeeds exactly when the line read parses to a target
  with a method and a URL. The header of the caller's target is replaced by an empty
  mapping only when it is nil; the values of the provider's default header are appended to
  what the target holds, and the values of the parsed object after them. So for every key
  the result is: the values the target held, then the defaults, then the object's values.
  For a target whose header is nil or empty, a default header \<open>A = [1]\<close> and an object
  header \<open>A = [2]\<close> give the header \<open>A = [1, 2]\<close>.
\<close>

theorem json_next_header_merge:
  "(fst (jsonTargeter_Next decode d (Some t0)) = None \<longrightarrow>
      (\<exists>line r' t out.
         read_line (jreader d) = (Inr line, r') \<and> decode line = Inr t \<and>
         jsonTargeter_Next decode d (Some t0) = (None, Some out, d\<lparr>jreader := r'\<rparr>) \<and>
         Header out \<noteq> None \<and>
         (\<forall>k. hget (Header out) k = hget (Header t0) k @ hget (jheader d) k @ hget (Header t) k) \<and>
         hkeys (Header out) = hkeys (Header t0) \<union> hkeys (jheader d) \<union> hkeys (Header t))) \<and>
   (read_line (jreader d1) = (Inr line1, r1) \<and> decode1 line1 = Inr t1 \<and>
    Method t1 \<noteq> [] \<and> URL t1 \<noteq> [] \<and>
    jheader d1 = Some [''A'' \<mapsto> [''1'']] \<and> Header t1 = Some [''A'' \<mapsto> [''2'']] \<and>
    hkeys (Header t2) = {} \<longrightarrow>
      (\<exists>out. jsonTargeter_Next decode1 d1 (Some t2) = (None, Some out, d1\<lparr>jreader := r1\<rparr>) \<and>
         Header out = Some [''A'' \<mapsto> [''1'', ''2'']]))"
proof (intro conjI impI)
  assume "fst (jsonTargeter_Next decode d (Some t0)) = None"
  then obtain line r' t where
    a: "read_line (jreader d) = (Inr line, r')" "decode line = Inr t" "Method t \<noteq> []" "URL t \<noteq> []"
    using json_next_success_only by blast
  let ?h0 = "case Header t0 of None \<Rightarrow> Map.empty | Some m \<Rightarrow> m"
  let ?out = "t0\<lparr>Method := Method t, URL := URL t,
                Body := (if length (Body t) > 0 then Body t else jbody d),
                Header := Some (append_values (append_values ?h0 (jheader d)) (Header t))\<rparr>"
  have h0: "hget (Some ?h0) k = hget (Header t0) k" for k
    by (simp add: hget_def split: option.splits)
  have k0: "hkeys (Some ?h0) = hkeys (Header t0)"
    by (simp add: hkeys_def split: option.splits)
  have "jsonTargeter_Next decode d (Some t0) = (None, Some ?out, d\<lparr>jreader := r'\<rparr>)"
    using a by (rule json_next_success)
  moreover have "Header ?out \<noteq> None" by simp
  moreover have "\<forall>k. hget (Header ?out) k =
      hget (Header t0) k @ hget (jheader d) k @ hget (Header t) k"
    by (simp add: hget_append_values h0)
  moreover have "hkeys (Header ?out) = hkeys (Header t0) \<union> hkeys (jheader d) \<union> hkeys (Header t)"
    by (simp add: hkeys_append_values k0)
  ultimately show "\<exists>line r' t out.
         read_line (jreader d) = (Inr line, r') \<and> decode line = Inr t \<and>
         jsonTargeter_Next decode d (Some t0) = (None, Some out, d\<lparr>jreader := r'\<rparr>) \<and>
         Header out \<noteq> None \<and>
         (\<forall>k. hget (Header out) k = hget (Header t0) k @ hget (jheader d) k @ hget (Header t) k) \<and>
         hkeys (Header out) = hkeys (Header t0) \<union> hkeys (jheader d) \<union> hkeys (Header t)"
    using a(1,2) by blast
next
  assume a: "read_line (jreader d1) = (Inr line1, r1) \<and> decode1 line1 = Inr t1 \<and>
    Method t1 \<noteq> [] \<and> URL t1 \<noteq> [] \<and>
    jheader d1 = Some [''A'' \<mapsto> [''1'']] \<and> Header t1 = Some [''A'' \<mapsto> [''2'']] \<and>
    hkeys (Header t2) = {}"
  let ?h0 = "case Header t2 of None \<Rightarrow> Map.empty | Some m \<Rightarrow> m"
  let ?out = "t2\<lparr>Method := Method t1, URL := URL t1,
                Body := (if length (Body t1) > 0 then Body t1 else jbody d1),
                Header := Some (append_values (append_values ?h0 (jheader d1)) (Header t1))\<rparr>"
  from a have "?h0 = Map.empty"
    by (auto simp: hkeys_def split: option.splits)
  with a have "append_values (append_values ?h0 (jheader d1)) (Header t1) = [''A'' \<mapsto> [''1'', ''2'']]"
    by (auto simp: append_values_def)
  then have "Header ?out = Some [''A'' \<mapsto> [''1'', ''2'']]" by simp
  moreover have "jsonTargeter_Next decode1 d1 (Some t2) = (None, Some ?out, d1\<lparr>jreader := r1\<rparr>)"
    using a json_next_success [where d = d1 and line = line1 and r' = r1 and decode = decode1
        and t = t1 and ?t0.0 = t2]
    by simp
  ultimately show "\<exists>out. jsonTargeter_Next decode1 d1 (Some t2) = (None, Some out, d1\<lparr>jreader := r1\<rparr>) \<and>
         Header out = Some [''A'' \<mapsto> [''1'', ''2'']]"
    by blast
qed

text \<open>
  The theorem on a stream of one line, with a parser that returns a request with the
  header \<open>A = [2]\<close>, a provider whose default header is \<open>A = [1]\<close>, and a fresh target.
\<close>

theorem json_next_header_merge_witness:
  "fst (snd (jsonTargeter_Next
         (\<lambda>l. Inr \<lparr>Method = ''GET'', URL = ''/'', Body = [], Header = Some [''A'' \<mapsto> [''2'']],
                    Name = []\<rparr>)
         (NewJSONTargeter \<lparr>data = ''{}'' @ [LF], fail = EOF\<rparr> [] (Some [''A'' \<mapsto> [''1'']]))
         (Some zeroTarget)))
     = Some \<lparr>Method = ''GET'', URL = ''/'', Body = [], Header = Some [''A'' \<mapsto> [''1'', ''2'']],
              Name = []\<rparr>"
proof -
  let ?t = "\<lparr>Method = ''GET'', URL = ''/'', Body = [], Header = Some [''A'' \<mapsto> [''2'']],
              Name = []\<rparr>"
  let ?dec = "\<lambda>l :: bytes. Inr ?t :: error + Target"
  let ?r = "\<lparr>data = ''{}'' @ [LF], fail = EOF\<rparr>"
  let ?d = "NewJSONTargeter ?r [] (Some [''A'' \<mapsto> [''1'']])"
  have t: "TrimSpace (''{}'' @ [LF]) = ''{}''"
    by (rule trimRight_LF)
      (simp_all add: leading_space_def trailing_space_def space_runes_def suffix_def)
  have "read_line \<lparr>data = concat (map (\<lambda>b. b @ [LF]) []) @ ''{}'' @ LF # [], fail = EOF\<rparr> =
      (Inr (TrimSpace (''{}'' @ [LF])), \<lparr>data = [], fail = EOF\<rparr>)"
    using t by (intro read_line_skips) (simp_all add: LF_def)
  with t have rl: "read_line (jreader ?d) = (Inr ''{}'', \<lparr>data = [], fail = EOF\<rparr>)"
    by (simp add: NewJSONTargeter_def)
  from json_next_header_merge [of ?dec ?d zeroTarget ?d "''{}''" "\<lparr>data = [], fail = EOF\<rparr>" ?dec ?t zeroTarget]
    rl
  obtain out where o: "jsonTargeter_Next ?dec ?d (Some zeroTarget) =
      (None, Some out, ?d\<lparr>jreader := \<lparr>data = [], fail = EOF\<rparr>\<rparr>)"
      "Header out = Some [''A'' \<mapsto> [''1'', ''2'']]"
    by (auto simp: NewJSONTargeter_def hkeys_def zeroTarget_def)
  have "jsonTargeter_Next ?dec ?d (Some zeroTarget) =
     (None,
      Some (zeroTarget\<lparr>Method := Method ?t, URL := URL ?t,
                Body := (if length (Body ?t) > 0 then Body ?t else jbody ?d),
                Header := Some (append_values
                  (append_values (case Header zeroTarget of None \<Rightarrow> Map.empty | Some m \<Rightarrow> m)
                     (jheader ?d))
                  (Header ?t))\<rparr>),
      ?d\<lparr>jreader := \<lparr>data = [], fail = EOF\<rparr>\<rparr>)"
    using rl json_next_success [where d = ?d and line = "''{}''" and decode = ?dec
        and t = ?t and ?t0.0 = zeroTarget]
    by simp
  with o have "out = \<lparr>Method = ''GET'', URL = ''/'', Body = [],
      Header = Header out, Name = []\<rparr>"
    by (simp add: zeroTarget_def NewJSONTargeter_def)
  with o show ?thesis by simp
qed

text \<open>
  C3 as the claim words it, for any prior contents of the caller's target, fails on a
  target that already holds a header: with \<open>A = [0]\<close> in the target, the call succeeds and
  leaves \<open>A = [0, 1, 2]\<close>, the mapping was not started from an empty one.
\<close>

theorem json_next_keeps_prior_header:
  "fst (jsonTargeter_Next
         (\<lambda>l. Inr \<lparr>Method = ''GET'', URL = ''/'', Body = [], Header = Some [''A'' \<mapsto> [''2'']],
                    Name = []\<rparr>)
         (NewJSONTargeter \<lparr>data = ''{}'' @ [LF], fail = EOF\<rparr> [] (Some [''A'' \<mapsto> [''1'']]))
         (Some (zeroTarget\<lparr>Header := Some [''A'' \<mapsto> [''0'']]\<rparr>)))
     = None \<and>
   fst (snd (jsonTargeter_Next
         (\<lambda>l. Inr \<lparr>Method = ''GET'', URL = ''/'', Body = [], Header = Some [''A'' \<mapsto> [''2'']],
                    Name = []\<rparr>)
         (NewJSONTargeter \<lparr>data = ''{}'' @ [LF], fail = EOF\<rparr> [] (Some [''A'' \<mapsto> [''1'']]))
         (Some (zeroTarget\<lparr>Header := Some [''A'' \<mapsto> [''0'']]\<rparr>))))
     = Some \<lparr>Method = ''GET'', URL = ''/'', Body = [],
              Header = Some [''A'' \<mapsto> [''0'', ''1'', ''2'']], Name = []\<rparr>"
proof -
  let ?t = "\<lparr>Method = ''GET'', URL = ''/'', Body = [], Header = Some [''A'' \<mapsto> [''2'']],
              Name = []\<rparr>"
  let ?dec = "\<lambda>l :: bytes. Inr ?t :: error + Target"
  let ?d = "NewJSONTargeter \<lparr>data = ''{}'' @ [LF], fail = EOF\<rparr> [] (Some [''A'' \<mapsto> [''1'']])"
  have t: "TrimSpace (''{}'' @ [LF]) = ''{}''"
    by (rule trimRight_LF)
      (simp_all add: leading_space_def trailing_space_def space_runes_def suffix_def)
  have "read_line \<lparr>data = concat (map (\<lambda>b. b @ [LF]) []) @ ''{}'' @ LF # [], fail = EOF\<rparr> =
      (Inr (TrimSpace (''{}'' @ [LF])), \<lparr>data = [], fail = EOF\<rparr>)"
    using t by (intro read_line_skips) (simp_all add: LF_def)
  with t have rl: "read_line (jreader ?d) = (Inr ''{}'', \<lparr>data = [], fail = EOF\<rparr>)"
    by (simp add: NewJSONTargeter_def)
  have m: "append_values (append_values [''A'' \<mapsto> [''0'']] (Some [''A'' \<mapsto> [''1'']]))
      (Some [''A'' \<mapsto> [''2'']]) = [''A'' \<mapsto> [''0'', ''1'', ''2'']]"
    by (auto simp: append_values_def)
  let ?old = "zeroTarget\<lparr>Header := Some [''A'' \<mapsto> [''0'']]\<rparr>"
  have "jsonTargeter_Next ?dec ?d (Some ?old) =
     (None,
      Some (?old\<lparr>Method := Method ?t, URL := URL ?t,
                Body := (if length (Body ?t) > 0 then Body ?t else jbody ?d),
                Header := Some (append_values
                  (append_values (case Header ?old of None \<Rightarrow> Map.empty | Some m \<Rightarrow> m)
                     (jheader ?d))
                  (Header ?t))\<rparr>),
      ?d\<lparr>jreader := \<lparr>data = [], fail = EOF\<rparr>\<rparr>)"
    using rl json_next_success [where d = ?d and line = "''{}''" and decode = ?dec
        and t = ?t and ?t0.0 = ?old]
    by simp
  then show ?thesis
    by (simp add: zeroTarget_def NewJSONTargeter_def m)
qed

section \<open>The round trip through the JSON encoder\<close>

subsection \<open>Strings and tokens\<close>

lemma hexval_hexdigit: "n < 16 \<Longrightarrow> hexval (hexdigit n) = Some n"
proof -
  assume "n < 16"
  then have "n = 0 \<or> n = 1 \<or> n = 2 \<or> n = 3 \<or> n = 4 \<or> n = 5 \<or> n = 6 \<or> n = 7 \<or>
      n = 8 \<or> n = 9 \<or> n = 10 \<or> n = 11 \<or> n = 12 \<or> n = 13 \<or> n = 14 \<or> n = 15"
    by arith
  then show ?thesis
    by (elim disjE) (simp_all add: hexval_def hexdigit_def)
qed

lemma escape_ctl:
  assumes "(of_char c :: nat) < 32"
  shows "lex (In acc) (escape_char c @ rest) = lex (In (acc @ [c])) rest"
proof -
  have n: "c \<noteq> dq" "c \<noteq> bsl" using assms by (auto simp: dq_def bsl_def)
  have d1: "of_char c div 16 < (16::nat)" using assms by simp
  have d2: "of_char c mod 16 < (16::nat)" by simp
  have e: "escape_char c = [bsl, CHR ''u'', CHR ''0'', CHR ''0'',
      hexdigit (of_char c div 16), hexdigit (of_char c mod 16)]"
    using assms n by (simp add: escape_char_def)
  have z: "hexval (CHR ''0'') = Some 0" by (simp add: hexval_def)
  have u: "utf8 (of_char c) = [c]"
    using assms by (simp add: utf8_def)
  have b: "bsl \<noteq> dq" "CHR ''u'' \<noteq> dq" "CHR ''u'' \<noteq> bsl"
    by (simp_all add: dq_def bsl_def)
  show ?thesis
    unfolding e
    by (simp add: z hexval_hexdigit [OF d1] hexval_hexdigit [OF d2] u b)
qed

lemma lex_In_escape:
  "lex (In acc) (concat (map escape_char s) @ dq # rest) =
     map_option (Cons (Str (acc @ s))) (lex Out rest)"
proof (induction s arbitrary: acc)
  case Nil
  then show ?case by simp
next
  case (Cons c s)
  have b: "bsl \<noteq> dq" by (simp add: dq_def bsl_def)
  consider "c = dq" | "c = bsl" | "c \<noteq> dq" "c \<noteq> bsl" "(of_char c :: nat) < 32"
    | "c \<noteq> dq" "c \<noteq> bsl" "\<not> (of_char c :: nat) < 32"
    by blast
  then have "lex (In acc) (escape_char c @ concat (map escape_char s) @ dq # rest) =
      lex (In (acc @ [c])) (concat (map escape_char s) @ dq # rest)"
  proof cases
    case 1
    then show ?thesis using b by (simp add: escape_char_def)
  next
    case 2
    then show ?thesis using b by (simp add: escape_char_def)
  next
    case 3
    then show ?thesis by (simp add: escape_ctl)
  next
    case 4
    then show ?thesis by (simp add: escape_char_def)
  qed
  with Cons.IH [of "acc @ [c]"] show ?case by simp
qed

lemma lex_render_tok:
  "punct_ok tk \<Longrightarrow> lex Out (render_tok tk @ rest) = map_option (Cons tk) (lex Out rest)"
proof (cases tk)
  case (Punct c)
  assume "punct_ok tk"
  with Punct show ?thesis by auto
next
  case (Str s)
  have "dq \<notin> set ''{}[]:,''" by (simp add: dq_def)
  with Str show ?thesis by (simp add: quote_def lex_In_escape)
qed

lemma lex_render_append:
  "list_all punct_ok toks \<Longrightarrow>
   lex Out (render toks @ rest) = map_option ((@) toks) (lex Out rest)"
proof (induction toks)
  case Nil
  show ?case by (simp add: render_def option.map_ident)
next
  case (Cons tk toks)
  have "lex Out (render (tk # toks) @ rest) = lex Out (render_tok tk @ (render toks @ rest))"
    by (simp add: render_def)
  also have "\<dots> = map_option (Cons tk) (lex Out (render toks @ rest))"
    using Cons.prems by (intro lex_render_tok) simp
  also have "\<dots> = map_option (Cons tk) (map_option ((@) toks) (lex Out rest))"
    using Cons by simp
  finally show ?case by (simp add: option.map_comp comp_def)
qed

lemma lex_render: "list_all punct_ok toks \<Longrightarrow> lex Out (render toks) = Some toks"
  using lex_render_append [of toks "[]"] by simp

lemma hexdigit_not_LF: "n < 16 \<Longrightarrow> hexdigit n \<noteq> LF"
proof
  assume "n < 16" and "hexdigit n = LF"
  then have "hexval LF = Some n" using hexval_hexdigit [of n] by simp
  then show False by (simp add: hexval_def LF_def)
qed

lemma LF_escape_char: "LF \<notin> set (escape_char c)"
proof (cases "(of_char c :: nat) < 32")
  case True
  then have "of_char c div 16 < (16::nat)" by simp
  moreover have "of_char c mod 16 < (16::nat)" by simp
  ultimately have "LF \<noteq> hexdigit (of_char c div 16)" "LF \<noteq> hexdigit (of_char c mod 16)"
    using hexdigit_not_LF by metis+
  then show ?thesis
    by (auto simp: escape_char_def LF_def dq_def bsl_def)
next
  case False
  then have "c \<noteq> LF" by (auto simp: LF_def)
  with False show ?thesis by (auto simp: escape_char_def LF_def dq_def bsl_def)
qed

lemma LF_render_tok: "punct_ok tk \<Longrightarrow> LF \<notin> set (render_tok tk)"
proof (cases tk)
  case (Punct c)
  assume "punct_ok tk"
  with Punct show ?thesis by (auto simp: LF_def)
next
  case (Str s)
  have "LF \<noteq> dq" by (simp add: LF_def dq_def)
  with Str show ?thesis by (auto simp: quote_def LF_escape_char)
qed

lemma LF_render: "list_all punct_ok toks \<Longrightarrow> LF \<notin> set (render toks)"
  by (induction toks) (simp_all add: render_def LF_render_tok)

subsection \<open>Base64\<close>

lemma b64val_digit: "n < 64 \<Longrightarrow> b64val (b64digit n) = Some n"
proof -
  assume n: "n < 64"
  consider "n < 26" | "26 \<le> n" "n < 52" | "52 \<le> n" "n < 62" | "n = 62" | "n = 63"
    using n by linarith
  then show ?thesis
  proof cases
    case 1
    then have "(of_char (char_of (65 + n) :: char) :: nat) = 65 + n" by simp
    with 1 show ?thesis by (simp add: b64digit_def b64val_def)
  next
    case 2
    then have "(of_char (char_of (71 + n) :: char) :: nat) = 71 + n" by simp
    with 2 show ?thesis by (simp add: b64digit_def b64val_def)
  next
    case 3
    then have "(of_char (char_of (n - 4) :: char) :: nat) = n - 4" by simp
    moreover from 3 have "48 \<le> n - 4 \<and> n - 4 \<le> 57 \<and> \<not> 65 \<le> n - 4 \<and> \<not> 97 \<le> n - 4 \<and> n - 4 + 4 = n"
      by arith
    ultimately show ?thesis using 3 by (simp add: b64digit_def b64val_def)
  next
    case 4
    then show ?thesis by (simp add: b64digit_def b64val_def)
  next
    case 5
    then show ?thesis by (simp add: b64digit_def b64val_def)
  qed
qed

lemma b64digit_not_pad: "n < 64 \<Longrightarrow> b64digit n \<noteq> CHR ''=''"
proof
  assume "n < 64" and "b64digit n = CHR ''=''"
  then have "b64val (CHR ''='') = Some n" using b64val_digit [of n] by simp
  then show False by (simp add: b64val_def)
qed

lemma sext_lt:
  "a < 256 \<Longrightarrow> sext1 a < 64" "b < 256 \<Longrightarrow> sext2 a b < 64" "c < 256 \<Longrightarrow> sext3 b c < 64"
  "sext4 c < 64"
  by (simp_all add: sext1_def sext2_def sext3_def sext4_def)

lemma oct1_sext: "b < 256 \<Longrightarrow> oct1 (sext1 a) (sext2 a b) = a"
proof -
  assume "b < 256"
  then have "b div 16 < 16" by simp
  then have "((a mod 4) * 16 + b div 16) div 16 = a mod 4" by simp
  then show ?thesis by (simp add: oct1_def sext1_def sext2_def)
qed

lemma oct2_sext: "b < 256 \<Longrightarrow> c < 256 \<Longrightarrow> oct2 (sext2 a b) (sext3 b c) = b"
proof -
  assume "b < 256" and "c < 256"
  then have "c div 64 < 4" and b: "b div 16 < 16" by simp_all
  then have 1: "((b mod 16) * 4 + c div 64) div 4 = b mod 16" by simp
  have 2: "b div 16 mod 16 = b div 16" using b by simp
  show ?thesis by (simp add: oct2_def sext2_def sext3_def 1 2)
qed

lemma oct3_sext: "c < 256 \<Longrightarrow> oct3 (sext3 b c) (sext4 c) = c"
proof -
  assume "c < 256"
  then have "c div 64 < 4" by simp
  then have "((b mod 16) * 4 + c div 64) mod 4 = c div 64" by simp
  then show ?thesis by (simp add: oct3_def sext3_def sext4_def)
qed

lemma b64_round_trip: "b64dec (b64enc bs) = Some bs"
proof (induction bs rule: b64enc.induct)
  case (1 a b c r)
  have lt: "(of_char a :: nat) < 256" "(of_char b :: nat) < 256" "(of_char c :: nat) < 256"
    by simp_all
  show ?case
    using 1
    by (simp add: b64val_digit sext_lt lt oct1_sext oct2_sext oct3_sext b64digit_not_pad)
next
  case (2 a b)
  have lt: "(of_char a :: nat) < 256" "(of_char b :: nat) < 256" "(0 :: nat) < 256"
    by simp_all
  show ?case
    by (simp add: b64val_digit sext_lt lt oct1_sext oct2_sext b64digit_not_pad)
next
  case (3 a)
  have lt: "(of_char a :: nat) < 256" "(0 :: nat) < 256"
    by simp_all
  show ?case
    by (simp add: b64val_digit sext_lt lt oct1_sext b64digit_not_pad)
next
  case 4
  show ?case by simp
qed

subsection \<open>The tokens of a target\<close>

lemma parse_strs_tail_toks: "parse_strs_tail (strs_tail_toks vs @ rest) = Some (vs, rest)"
  by (induction vs) simp_all

lemma parse_strs_toks: "parse_strs (strs_toks vs @ rest) = Some (vs, rest)"
  by (cases vs) (simp_all add: parse_strs_def parse_strs_tail_toks)

lemma parse_hdr_member_toks:
  "parse_hdr_member (Str k # Colon # strs_toks vs @ rest) = Some ((k, vs), rest)"
  by (simp add: parse_hdr_member_def parse_strs_toks)

lemma parse_hdr_tail_toks:
  "parse_hdr_tail m (hdr_tail_toks kvs @ rest) =
     Some (foldl (\<lambda>m (k, vs). m(k \<mapsto> vs)) m kvs, rest)"
proof (induction kvs arbitrary: m)
  case Nil
  show ?case by simp
next
  case (Cons kv kvs)
  obtain k vs where kv: "kv = (k, vs)" by (cases kv)
  show ?case
    unfolding kv by (simp add: parse_hdr_member_toks Cons.IH)
qed

lemma parse_hdr_toks:
  "parse_hdr (hdr_toks kvs @ rest) = Some (foldl (\<lambda>m (k, vs). m(k \<mapsto> vs)) Map.empty kvs, rest)"
proof (cases kvs)
  case Nil
  then show ?thesis by (simp add: parse_hdr_def)
next
  case (Cons kv kvs')
  obtain k vs where kv: "kv = (k, vs)" by (cases kv)
  show ?thesis
    unfolding Cons kv by (simp add: parse_hdr_def parse_hdr_member_toks parse_hdr_tail_toks)
qed

lemma foldl_upd_map:
  "foldl (\<lambda>m (k, vs). m(k \<mapsto> vs)) m (map (\<lambda>k. (k, f k)) ks) =
     (\<lambda>k. if k \<in> set ks then Some (f k) else m k)"
  by (induction ks arbitrary: m) (auto simp: fun_eq_iff)

lemma punct_ok_strs_tail_toks: "list_all punct_ok (strs_tail_toks vs)"
  by (induction vs) simp_all

lemma punct_ok_strs_toks: "list_all punct_ok (strs_toks vs)"
  by (cases vs) (simp_all add: punct_ok_strs_tail_toks)

lemma punct_ok_hdr_tail_toks: "list_all punct_ok (hdr_tail_toks kvs)"
  by (induction kvs) (auto simp: punct_ok_strs_toks)

lemma punct_ok_hdr_toks: "list_all punct_ok (hdr_toks kvs)"
  by (cases kvs) (auto simp: punct_ok_strs_toks punct_ok_hdr_tail_toks)

lemma punct_ok_target_toks: "list_all punct_ok (target_toks ks t)"
  by (simp add: target_toks_def punct_ok_hdr_toks)

lemma parse_target_method:
  "parse_target (LBrace # Str ''method'' # Colon # Str v # rest) =
     parse_obj_tail (zeroTarget\<lparr>Method := v\<rparr>) rest"
  by (simp add: parse_target_def parse_member_def)

lemma parse_obj_tail_url:
  "parse_obj_tail t (Comma # Str ''url'' # Colon # Str v # rest) =
     parse_obj_tail (t\<lparr>URL := v\<rparr>) rest"
  by (simp add: parse_member_def)

lemma parse_obj_tail_name:
  "parse_obj_tail t (Comma # Str ''name'' # Colon # Str v # rest) =
     parse_obj_tail (t\<lparr>Name := v\<rparr>) rest"
  by (simp add: parse_member_def)

lemma parse_obj_tail_body:
  "parse_obj_tail t (Comma # Str ''body'' # Colon # Str (b64enc bs) # rest) =
     parse_obj_tail (t\<lparr>Body := bs\<rparr>) rest"
  by (simp add: parse_member_def b64_round_trip)

lemma parse_obj_tail_header:
  "parse_obj_tail t (Comma # Str ''header'' # Colon # hdr_toks kvs @ rest) =
     parse_obj_tail (t\<lparr>Header := Some (foldl (\<lambda>m (k, vs). m(k \<mapsto> vs)) Map.empty kvs)\<rparr>) rest"
  by (simp add: parse_member_def parse_hdr_toks)

lemma parse_obj_tail_end: "parse_obj_tail t [RBrace] = Some t"
  by simp

declare parse_obj_tail.simps [simp del]

text \<open>
  The parser reads the tokens of a target back: the method, the URL, the body and the
  name as they were, and for the header the mapping of the names visited to their values
  (no header when there was no name to visit).
\<close>

lemma parse_target_toks:
  "parse_target (target_toks ks t) =
     Some \<lparr>Method = Method t, URL = URL t, Body = Body t,
           Header = (if ks = [] then None
                     else Some (\<lambda>k. if k \<in> set ks then Some (hget (Header t) k) else None)),
           Name = Name t\<rparr>"
proof -
  let ?h = "\<lambda>k. if k \<in> set ks then Some (hget (Header t) k) else None"
  have h: "foldl (\<lambda>m (k, vs). m(k \<mapsto> vs)) Map.empty (map (\<lambda>k. (k, hget (Header t) k)) ks) = ?h"
    by (simp add: foldl_upd_map)
  let ?n = "if Name t = [] then [] else [Comma, Str ''name'', Colon, Str (Name t)]"
  let ?hd = "if ks = [] then []
      else Comma # Str ''header'' # Colon # hdr_toks (map (\<lambda>k. (k, hget (Header t) k)) ks)"
  let ?b = "if Body t = [] then [] else [Comma, Str ''body'', Colon, Str (b64enc (Body t))]"
  have n: "parse_obj_tail u (?n @ [RBrace]) = Some (u\<lparr>Name := (if Name t = [] then Name u else Name t)\<rparr>)"
    for u
    by (simp add: parse_obj_tail_name parse_obj_tail_end)
  have hd: "parse_obj_tail u (?hd @ ?n @ [RBrace]) =
      Some (u\<lparr>Header := (if ks = [] then Header u else Some ?h),
              Name := (if Name t = [] then Name u else Name t)\<rparr>)"
    for u
  proof (cases "ks = []")
    case True
    then show ?thesis using n [of u] by simp
  next
    case False
    then have "parse_obj_tail u (?hd @ ?n @ [RBrace]) =
        parse_obj_tail (u\<lparr>Header := Some ?h\<rparr>) (?n @ [RBrace])"
      using parse_obj_tail_header
        [of u "map (\<lambda>k. (k, hget (Header t) k)) ks" "?n @ [RBrace]"]
      by (simp add: h)
    with False show ?thesis by (simp add: n)
  qed
  have b: "parse_obj_tail u (?b @ ?hd @ ?n @ [RBrace]) =
      Some (u\<lparr>Body := (if Body t = [] then Body u else Body t),
              Header := (if ks = [] then Header u else Some ?h),
              Name := (if Name t = [] then Name u else Name t)\<rparr>)"
    for u
  proof (cases "Body t = []")
    case True
    then show ?thesis using hd [of u] by simp
  next
    case False
    then have "parse_obj_tail u (?b @ ?hd @ ?n @ [RBrace]) =
        parse_obj_tail (u\<lparr>Body := Body t\<rparr>) (?hd @ ?n @ [RBrace])"
      using parse_obj_tail_body [of u "Body t" "?hd @ ?n @ [RBrace]"] by simp
    with False show ?thesis by (simp add: hd)
  qed
  have "parse_target (target_toks ks t) =
      parse_obj_tail (zeroTarget\<lparr>Method := Method t, URL := URL t\<rparr>) (?b @ ?hd @ ?n @ [RBrace])"
    unfolding target_toks_def
    by (simp only: append_Cons append_Nil parse_target_method parse_obj_tail_url)
  then show ?thesis
    by (simp add: b zeroTarget_def)
qed

lemma render_append: "render (a @ b) = render a @ render b"
  by (simp add: render_def)

text \<open>
  The line of the encoder: an object on one line, which the decoder reads back as the
  target above.
\<close>

lemma jsonTarget_encode_line:
  "\<exists>js. jsonTarget_encode ks t = Inr js \<and> js \<noteq> [] \<and> hd js = CHR ''{'' \<and>
        last js = CHR ''}'' \<and> LF \<notin> set js \<and>
        jsonTarget_decode js =
          Inr \<lparr>Method = Method t, URL = URL t, Body = Body t,
                Header = (if ks = [] then None
                          else Some (\<lambda>k. if k \<in> set ks then Some (hget (Header t) k) else None)),
                Name = Name t\<rparr>"
proof -
  let ?js = "render (target_toks ks t)"
  obtain front where f: "target_toks ks t = LBrace # front @ [RBrace]"
    by (simp add: target_toks_def)
  then have s: "?js = CHR ''{'' # render front @ ''}''"
    by (simp add: render_def)
  have l: "lex Out ?js = Some (target_toks ks t)"
    by (rule lex_render) (rule punct_ok_target_toks)
  have "LF \<notin> set ?js"
    by (rule LF_render) (rule punct_ok_target_toks)
  moreover have "jsonTarget_decode ?js =
      Inr \<lparr>Method = Method t, URL = URL t, Body = Body t,
            Header = (if ks = [] then None
                      else Some (\<lambda>k. if k \<in> set ks then Some (hget (Header t) k) else None)),
            Name = Name t\<rparr>"
    by (simp add: jsonTarget_decode_def l parse_target_toks)
  moreover have "?js \<noteq> []" "hd ?js = CHR ''{''" "last ?js = CHR ''}''"
    unfolding s by simp_all
  ultimately show ?thesis
    by (simp add: jsonTarget_encode_def)
qed

subsection \<open>The encoder and the decoder\<close>

lemma hlen_hkeys: "hlen h = card (hkeys h)"
  by (simp add: hlen_def hkeys_def split: option.splits)

lemma Equal_iff:
  "Equal (Some a) (Some b) \<longleftrightarrow>
     Method a = Method b \<and> URL a = URL b \<and> Body a = Body b \<and>
     hlen (Header a) = hlen (Header b) \<and>
     (\<forall>k \<in> hkeys (Header a). hget (Header a) k = hget (Header b) k)"
  by (auto simp: Equal_def list_eq_iff_nth_eq)

lemma leading_space_brace:
  assumes "s \<noteq> []" and "hd s = CHR ''{''"
  shows "leading_space s = 0"
proof -
  have "\<not> prefix r s" if "r \<in> set space_runes" for r
  proof
    assume "prefix r s"
    moreover from that have "r \<noteq> []" by (rule space_runes_nonempty)
    ultimately have "hd r = hd s" by (auto simp: prefix_def)
    with assms(2) that show False by (auto simp: space_runes_def)
  qed
  then show ?thesis by (simp add: leading_space_0_iff)
qed

lemma trailing_space_brace:
  assumes "s \<noteq> []" and "last s = CHR ''}''"
  shows "trailing_space s = 0"
proof -
  have "\<not> suffix r s" if "r \<in> set space_runes" for r
  proof
    assume "suffix r s"
    moreover from that have "r \<noteq> []" by (rule space_runes_nonempty)
    ultimately have "last r = last s" by (auto simp: suffix_def)
    with assms(2) that show False by (auto simp: space_runes_def)
  qed
  then show ?thesis by (simp add: trailing_space_0_iff)
qed

lemma append_values_empty: "append_values Map.empty h = (case h of None \<Rightarrow> Map.empty | Some m \<Rightarrow> m)"
  by (auto simp: append_values_def split: option.splits)

text \<open>
  What \<^verbatim>\<open>NewJSONTargetEncoder\<close> and \<^verbatim>\<open>jsonTargeter.Next\<close> add to the serialization:
  the encoder writes the object and a line feed; a fresh decoder without defaults reads
  the line, trims the line feed off, hands the parser exactly the object, and fills a
  fresh target with what the parser read.
\<close>

lemma json_line_round_trip:
  assumes "encode t = Inr js" and "js \<noteq> []" and "hd js = CHR ''{''" and "last js = CHR ''}''"
    and "LF \<notin> set js" and "decode js = Inr t'" and "Method t' \<noteq> []" and "URL t' \<noteq> []"
  shows "JSONTargetEncoder encode [] t = (None, js @ [LF])"
    and "jsonTargeter_Next decode (NewJSONTargeter \<lparr>data = js @ [LF], fail = EOF\<rparr> [] None)
           (Some zeroTarget) =
         (None,
          Some \<lparr>Method = Method t', URL = URL t', Body = Body t',
                Header = Some (case Header t' of None \<Rightarrow> Map.empty | Some m \<Rightarrow> m), Name = []\<rparr>,
          NewJSONTargeter \<lparr>data = [], fail = EOF\<rparr> [] None)"
proof -
  let ?d = "NewJSONTargeter \<lparr>data = js @ [LF], fail = EOF\<rparr> [] None"
  show "JSONTargetEncoder encode [] t = (None, js @ [LF])"
    by (simp add: JSONTargetEncoder_def assms(1))
  have tr: "TrimSpace (js @ [LF]) = js"
    using assms(2-5) by (intro trimRight_LF leading_space_brace trailing_space_brace)
  have "read_line \<lparr>data = concat (map (\<lambda>b. b @ [LF]) []) @ js @ LF # [], fail = EOF\<rparr> =
      (Inr (TrimSpace (js @ [LF])), \<lparr>data = [], fail = EOF\<rparr>)"
    using assms(2,5) tr by (intro read_line_skips) simp_all
  with tr have rl: "read_line (jreader ?d) = (Inr js, \<lparr>data = [], fail = EOF\<rparr>)"
    by (simp add: NewJSONTargeter_def)
  have "jsonTargeter_Next decode ?d (Some zeroTarget) =
      (None,
       Some (zeroTarget\<lparr>Method := Method t', URL := URL t',
               Body := (if length (Body t') > 0 then Body t' else jbody ?d),
               Header := Some (append_values
                 (append_values (case Header zeroTarget of None \<Rightarrow> Map.empty | Some m \<Rightarrow> m)
                    (jheader ?d))
                 (Header t'))\<rparr>),
       ?d\<lparr>jreader := \<lparr>data = [], fail = EOF\<rparr>\<rparr>)"
    using rl assms(6-8) by (intro json_next_success) simp_all
  then show "jsonTargeter_Next decode ?d (Some zeroTarget) =
         (None,
          Some \<lparr>Method = Method t', URL = URL t', Body = Body t',
                Header = Some (case Header t' of None \<Rightarrow> Map.empty | Some m \<Rightarrow> m), Name = []\<rparr>,
          NewJSONTargeter \<lparr>data = [], fail = EOF\<rparr> [] None)"
    by (simp add: zeroTarget_def NewJSONTargeter_def append_values_empty)
qed

text \<open>
  Two lines of the format: the line the encoder writes for a \<^verbatim>\<open>POST\<close> with a header and
  the body \<^verbatim>\<open>FOO\<close>, and the example line of the specification read by the decoder.
\<close>

lemma b64enc_FOO: "b64enc ''FOO'' = ''Rk9P''"
  by code_simp

lemma jsonTarget_encode_example:
  "jsonTarget_encode [''Content-Type'']
     \<lparr>Method = ''POST'', URL = ''https://goku/1'', Body = ''FOO'',
       Header = Some [''Content-Type'' \<mapsto> [''text/plain'']], Name = []\<rparr> =
   Inr ''{\"method\":\"POST\",\"url\":\"https://goku/1\",\"body\":\"Rk9P\",\"header\":{\"Content-Type\":[\"text/plain\"]}}''"
  by (simp add: jsonTarget_encode_def target_toks_def render_def quote_def escape_char_def
      dq_def bsl_def hget_def b64enc_FOO del: b64enc.simps)

lemma jsonTarget_decode_example:
  "jsonTarget_decode ''{\"method\":\"GET\",\"url\":\"https://host/2\"}'' =
     Inr \<lparr>Method = ''GET'', URL = ''https://host/2'', Body = [], Header = None, Name = []\<rparr>"
  by (simp add: jsonTarget_decode_def dq_def bsl_def parse_target_def parse_member_def
      parse_obj_tail.simps zeroTarget_def)

text \<open>
  C9. A target of the JSON decoder has a method, a URL and a header that is not nil. For
  every such target \<open>t\<close> and every order \<open>ks\<close> in which the encoder visits the names of its
  header: the encoder writes a line without error, and a fresh decoder without defaults
  over what was written returns, into a fresh target, a target with the method, the URL,
  the body and the header of \<open>t\<close>, the header with the same names and for every name the
  same values in the same order; \<^verbatim>\<open>Equal\<close> accepts the two targets as equal, whichever
  of them is the receiver.
\<close>

theorem json_encode_decode_round_trip:
  assumes "Method t \<noteq> []" and "URL t \<noteq> []" and "Header t = Some m" and "set ks = dom m"
  shows "\<exists>w out d'.
     JSONTargetEncoder (jsonTarget_encode ks) [] t = (None, w) \<and>
     jsonTargeter_Next jsonTarget_decode (NewJSONTargeter \<lparr>data = w, fail = EOF\<rparr> [] None)
       (Some zeroTarget) = (None, Some out, d') \<and>
     Method out = Method t \<and> URL out = URL t \<and> Body out = Body t \<and> Header out = Header t \<and>
     Equal (Some t) (Some out) \<and> Equal (Some out) (Some t)"
proof -
  let ?h = "\<lambda>k. if k \<in> set ks then Some (hget (Header t) k) else None"
  let ?t' = "\<lparr>Method = Method t, URL = URL t, Body = Body t,
      Header = (if ks = [] then None else Some ?h), Name = Name t\<rparr>"
  obtain js where e: "jsonTarget_encode ks t = Inr js" and
    js: "js \<noteq> []" "hd js = CHR ''{''" "last js = CHR ''}''" "LF \<notin> set js" and
    d: "jsonTarget_decode js = Inr ?t'"
    using jsonTarget_encode_line [of ks t] by blast
  let ?out = "\<lparr>Method = Method ?t', URL = URL ?t', Body = Body ?t',
      Header = Some (case Header ?t' of None \<Rightarrow> Map.empty | Some m \<Rightarrow> m), Name = []\<rparr>"
  have m: "Method ?t' \<noteq> []" "URL ?t' \<noteq> []" using assms(1,2) by simp_all
  note rt = json_line_round_trip
    [where encode = "jsonTarget_encode ks" and decode = jsonTarget_decode and t = t,
      OF e js d m]
  have h: "?h = m"
    using assms(3,4) by (auto simp: fun_eq_iff hget_def split: option.splits)
  have "(case Header ?t' of None \<Rightarrow> Map.empty | Some m \<Rightarrow> m) = m"
  proof (cases "ks = []")
    case True
    with assms(4) have "dom m = {}" by simp
    then have "m = Map.empty" by simp
    with True show ?thesis by simp
  next
    case False
    with h show ?thesis by simp
  qed
  then have ho: "Header ?out = Header t" using assms(3) by simp
  have f: "Method ?out = Method t" "URL ?out = URL t" "Body ?out = Body t" by simp_all
  from f ho have "Equal (Some t) (Some ?out)" "Equal (Some ?out) (Some t)"
    unfolding Equal_iff by simp_all
  with rt f ho show ?thesis by blast
qed

text \<open>
  The theorem on a \<^verbatim>\<open>POST\<close> with the header \<^verbatim>\<open>Content-Type: text/plain\<close> and the body
  \<^verbatim>\<open>FOO\<close>: the encoder writes the line above, and the decoder reads the target back
  from it.
\<close>

theorem json_encode_decode_round_trip_witness:
  "\<exists>out d'.
     JSONTargetEncoder (jsonTarget_encode [''Content-Type'']) []
        \<lparr>Method = ''POST'', URL = ''https://goku/1'', Body = ''FOO'',
          Header = Some [''Content-Type'' \<mapsto> [''text/plain'']], Name = []\<rparr>
       = (None,
          ''{\"method\":\"POST\",\"url\":\"https://goku/1\",\"body\":\"Rk9P\",\"header\":{\"Content-Type\":[\"text/plain\"]}}'' @ [LF]) \<and>
     jsonTargeter_Next jsonTarget_decode
        (NewJSONTargeter
           \<lparr>data = ''{\"method\":\"POST\",\"url\":\"https://goku/1\",\"body\":\"Rk9P\",\"header\":{\"Content-Type\":[\"text/plain\"]}}'' @ [LF],
             fail = EOF\<rparr> [] None)
        (Some zeroTarget)
       = (None, Some out, d') \<and>
     Method out = ''POST'' \<and> URL out = ''https://goku/1'' \<and> Body out = ''FOO'' \<and>
     Header out = Some [''Content-Type'' \<mapsto> [''text/plain'']] \<and>
     Equal (Some \<lparr>Method = ''POST'', URL = ''https://goku/1'', Body = ''FOO'',
                   Header = Some [''Content-Type'' \<mapsto> [''text/plain'']], Name = []\<rparr>)
           (Some out) \<and>
     Equal (Some out)
           (Some \<lparr>Method = ''POST'', URL = ''https://goku/1'', Body = ''FOO'',
                   Header = Some [''Content-Type'' \<mapsto> [''text/plain'']], Name = []\<rparr>)"
proof -
  let ?t = "\<lparr>Method = ''POST'', URL = ''https://goku/1'', Body = ''FOO'',
          Header = Some [''Content-Type'' \<mapsto> [''text/plain'']], Name = []\<rparr>"
  let ?line = "''{\"method\":\"POST\",\"url\":\"https://goku/1\",\"body\":\"Rk9P\",\"header\":{\"Content-Type\":[\"text/plain\"]}}''"
  from json_encode_decode_round_trip
    [of ?t "[''Content-Type'' \<mapsto> [''text/plain'']]" "[''Content-Type'']"]
  obtain w out d' where
    w: "JSONTargetEncoder (jsonTarget_encode [''Content-Type'']) [] ?t = (None, w)" and
    n: "jsonTargeter_Next jsonTarget_decode (NewJSONTargeter \<lparr>data = w, fail = EOF\<rparr> [] None)
          (Some zeroTarget) = (None, Some out, d')" and
    f: "Method out = Method ?t" "URL out = URL ?t" "Body out = Body ?t" "Header out = Header ?t" and
    e: "Equal (Some ?t) (Some out)" "Equal (Some out) (Some ?t)"
    by auto
  have l: "JSONTargetEncoder (jsonTarget_encode [''Content-Type'']) [] ?t = (None, ?line @ [LF])"
    unfolding JSONTargetEncoder_def jsonTarget_encode_example by simp
  with w have "w = ?line @ [LF]" by simp
  with l n f e show ?thesis by auto
qed

end
